theory Spec2Isabelle
  imports Main "HOL-Library.AList" "HOL-Library.Sublist"
begin

section \<open>Strings\<close>

text \<open>
  A Python \<open>str\<close> is modelled as a \<open>string\<close>: one \<open>char\<close> per code point, for the
  code points below 256. \<open>bytes\<close> values are \<open>string\<close>s too, one \<open>char\<close> per byte.
\<close>

type_synonym bytes = string
type_synonym path = string

text \<open>\<open>str.isspace\<close> on one code point below 256: tab to carriage return, the four
  separators \<open>0x1c\<close> to \<open>0x1f\<close>, space, \<open>0x85\<close> and \<open>0xa0\<close>.\<close>

definition py_isspace :: "char \<Rightarrow> bool" where
  "py_isspace c =
     (let n = (of_char c :: nat)
      in (9 \<le> n \<and> n \<le> 13) \<or> (28 \<le> n \<and> n \<le> 32) \<or> n = 133 \<or> n = 160)"

text \<open>\<open>s.strip()\<close> and \<open>s.strip(chars)\<close>: drop from both ends while the predicate holds.\<close>

definition strip_where :: "(char \<Rightarrow> bool) \<Rightarrow> string \<Rightarrow> string" where
  "strip_where P s = rev (dropWhile P (rev (dropWhile P s)))"

definition py_strip :: "string \<Rightarrow> string" where
  "py_strip s = strip_where py_isspace s"

definition py_strip_chars :: "string \<Rightarrow> string \<Rightarrow> string" where
  "py_strip_chars chars s = strip_where (\<lambda>c. c \<in> set chars) s"

section \<open>Decimal numerals\<close>

text \<open>\<open>str(n)\<close> for an integer: the decimal digits, most significant first, with a
  minus sign for a negative number.\<close>

definition digit_char :: "nat \<Rightarrow> char" where
  "digit_char d = char_of (48 + d)"

fun py_str_nat :: "nat \<Rightarrow> string" where
  "py_str_nat n =
     (if n < 10 then [digit_char n] else py_str_nat (n div 10) @ [digit_char (n mod 10)])"

declare py_str_nat.simps [simp del]

definition py_str_int :: "int \<Rightarrow> string" where
  "py_str_int i = (if i < 0 then CHR ''-'' # py_str_nat (nat (- i)) else py_str_nat (nat i))"

section \<open>Python values and exceptions\<close>

text \<open>
  The values \<open>json.loads\<close> produces. A dictionary is the list of its items in insertion
  order, its keys strings and pairwise different. Floating-point numbers are outside
  the model.
\<close>

datatype pyval =
    PNone
  | PBool bool
  | PInt int
  | PStr string
  | PList "pyval list"
  | PDict "(string \<times> pyval) list"

text \<open>The exceptions that occur. All of them are subclasses of \<open>Exception\<close>.
  \<open>FetchError\<close> stands for whatever the HTTP library raises on a transport failure
  or a non-success status.\<close>

datatype exn =
    NameError string
  | AttributeError
  | TypeError
  | ValueError
  | JSONDecodeError
  | FileNotFoundError
  | FileExistsError
  | NotADirectoryError
  | IsADirectoryError
  | RuntimeError string
  | FetchError

text \<open>Truth value of an object, as \<open>if x\<close>, \<open>not x\<close> and \<open>x or y\<close> test it.\<close>

fun py_truthy :: "pyval \<Rightarrow> bool" where
  "py_truthy PNone = False"
| "py_truthy (PBool b) = b"
| "py_truthy (PInt i) = (i \<noteq> 0)"
| "py_truthy (PStr s) = (s \<noteq> [])"
| "py_truthy (PList xs) = (xs \<noteq> [])"
| "py_truthy (PDict kvs) = (kvs \<noteq> [])"

text \<open>\<open>x.get(key, default)\<close>: only a dictionary has the method.\<close>

fun py_get :: "pyval \<Rightarrow> string \<Rightarrow> pyval \<Rightarrow> exn + pyval" where
  "py_get (PDict kvs) key dflt = Inr (case map_of kvs key of Some v \<Rightarrow> v | None \<Rightarrow> dflt)"
| "py_get _ key dflt = Inl AttributeError"

text \<open>\<open>int(x)\<close>. The parse of a \<open>str\<close> is the builtin's, taken as the parameter
  \<open>str_int\<close> (\<open>None\<close> where it raises \<open>ValueError\<close>).\<close>

fun py_int :: "(string \<Rightarrow> int option) \<Rightarrow> pyval \<Rightarrow> exn + int" where
  "py_int str_int (PInt i) = Inr i"
| "py_int str_int (PBool b) = Inr (if b then 1 else 0)"
| "py_int str_int (PStr s) = (case str_int s of Some i \<Rightarrow> Inr i | None \<Rightarrow> Inl ValueError)"
| "py_int str_int _ = Inl TypeError"

text \<open>\<open>for p in x\<close>: the elements of a list, the keys of a dictionary, the characters
  of a string; nothing else here is iterable.\<close>

fun py_iter :: "pyval \<Rightarrow> exn + pyval list" where
  "py_iter (PList xs) = Inr xs"
| "py_iter (PDict kvs) = Inr (map (\<lambda>kv. PStr (fst kv)) kvs)"
| "py_iter (PStr s) = Inr (map (\<lambda>c. PStr [c]) s)"
| "py_iter _ = Inl TypeError"

section \<open>Pagination iterator\<close>

text \<open>What the HTTP library does with one GET of a JSON page: it raises, or it
  delivers the decoded body.\<close>

datatype fetch = FetchRaised exn | FetchData pyval

definition http_get_json :: "(string \<Rightarrow> fetch) \<Rightarrow> string \<Rightarrow> exn + pyval" where
  "http_get_json net url = (case net url of FetchRaised e \<Rightarrow> Inl e | FetchData v \<Rightarrow> Inr v)"

definition BASE_API :: "int \<Rightarrow> string" where
  "BASE_API category_id =
     ''https://chorig.org/wp-json/app/v1/categories/'' @ py_str_int category_id @ ''/prayers/''"

text \<open>\<open>isinstance(pid, int)\<close> holds of an \<open>int\<close> and of a \<open>bool\<close>; in a set \<open>True\<close>
  is the element \<open>1\<close> and \<open>False\<close> the element \<open>0\<close>.\<close>

fun int_id :: "pyval \<Rightarrow> int option" where
  "int_id (PInt i) = Some i"
| "int_id (PBool b) = Some (if b then 1 else 0)"
| "int_id _ = None"

text \<open>The loop \<open>for p in prayers\<close>: the items yielded and the seen-set afterwards.\<close>

fun yield_page :: "int set \<Rightarrow> pyval list \<Rightarrow> pyval list \<times> int set" where
  "yield_page seen_ids [] = ([], seen_ids)"
| "yield_page seen_ids (PDict kvs # ps) =
     (case int_id (case map_of kvs ''id'' of Some v \<Rightarrow> v | None \<Rightarrow> PNone) of
        Some pid \<Rightarrow>
          if pid \<in> seen_ids then yield_page seen_ids ps
          else (let (ys, s) = yield_page (insert pid seen_ids) ps in (PDict kvs # ys, s))
      | None \<Rightarrow> (let (ys, s) = yield_page seen_ids ps in (PDict kvs # ys, s)))"
| "yield_page seen_ids (_ # ps) = yield_page seen_ids ps"

datatype outcome = Stopped | Raised exn | OutOfFuel

text \<open>One turn of the loop \<open>while True\<close>, after the page has been fetched: it ends the
  iteration (\<open>break\<close>, or an exception), or it goes on to the next page with a new
  seen-set and a new total. Either way it has yielded some items first.\<close>

datatype step = Halt "pyval list" outcome | Next_page "pyval list" "int set" pyval

definition loop_body :: "(string \<Rightarrow> int option) \<Rightarrow> int set \<Rightarrow> pyval \<Rightarrow> pyval \<Rightarrow> step" where
  "loop_body str_int seen_ids total_count data =
     (case py_get data ''totalCount'' total_count of
        Inl e \<Rightarrow> Halt [] (Raised e)
      | Inr total_count' \<Rightarrow>
          (case py_get data ''prayers'' PNone of
             Inl e \<Rightarrow> Halt [] (Raised e)
           | Inr got \<Rightarrow>
               (let prayers = (if py_truthy got then got else PList []) in
                if \<not> py_truthy prayers then Halt [] Stopped
                else
                  (case py_iter prayers of
                     Inl e \<Rightarrow> Halt [] (Raised e)
                   | Inr ps \<Rightarrow>
                       (let (ys, seen_ids') = yield_page seen_ids ps in
                        if total_count' \<noteq> PNone then
                          (case py_int str_int total_count' of
                             Inl e \<Rightarrow> Halt ys (Raised e)
                           | Inr t \<Rightarrow>
                               if int (card seen_ids') \<ge> t then Halt ys Stopped
                               else Next_page ys seen_ids' total_count')
                        else Next_page ys seen_ids' total_count')))))"

text \<open>What a run of the generator does: the items it yields, the URLs it requests, both
  in order, and how it ends.\<close>

record iter_result =
  yielded :: "pyval list"
  requested :: "string list"
  outcome :: outcome

definition and_then :: "pyval list \<Rightarrow> string \<Rightarrow> iter_result \<Rightarrow> iter_result" where
  "and_then ys url r =
     \<lparr>yielded = ys @ yielded r, requested = url # requested r, outcome = outcome r\<rparr>"

text \<open>
  The loop \<open>while True\<close> of \<open>iter_prayers\<close>. It has no bound of its own, so the model
  counts page requests down from \<open>fuel\<close>; a run that would go on ends \<open>OutOfFuel\<close>.
  A failed fetch is the \<open>break\<close> of the \<open>except\<close> clause.
\<close>

fun iter_loop ::
  "(string \<Rightarrow> int option) \<Rightarrow> (string \<Rightarrow> fetch) \<Rightarrow> string \<Rightarrow> nat \<Rightarrow> nat \<Rightarrow> int set \<Rightarrow> pyval
     \<Rightarrow> iter_result" where
  "iter_loop str_int net base_url 0 page seen_ids total_count =
     \<lparr>yielded = [], requested = [], outcome = OutOfFuel\<rparr>"
| "iter_loop str_int net base_url (Suc fuel) page seen_ids total_count =
     (let page_url = base_url @ py_str_nat page in
      case http_get_json net page_url of
        Inl e \<Rightarrow> \<lparr>yielded = [], requested = [page_url], outcome = Stopped\<rparr>
      | Inr data \<Rightarrow>
          (case loop_body str_int seen_ids total_count data of
             Halt ys out \<Rightarrow> \<lparr>yielded = ys, requested = [page_url], outcome = out\<rparr>
           | Next_page ys seen_ids' total_count' \<Rightarrow>
               and_then ys page_url
                 (iter_loop str_int net base_url fuel (Suc page) seen_ids' total_count')))"

definition iter_prayers ::
  "(string \<Rightarrow> int option) \<Rightarrow> (string \<Rightarrow> fetch) \<Rightarrow> int \<Rightarrow> nat \<Rightarrow> iter_result" where
  "iter_prayers str_int net category_id fuel =
     iter_loop str_int net (BASE_API category_id) fuel 0 {} PNone"

text \<open>Notions the statements about the iterator use: the URL of a page, the integer
  id of an item, the elements of a page's \<open>prayers\<close> array, a page whose array is empty
  or absent, and the items of a list that are records and are the first with their
  integer id.\<close>

definition page_url :: "int \<Rightarrow> nat \<Rightarrow> string" where
  "page_url category_id page = BASE_API category_id @ py_str_nat page"

fun item_id :: "pyval \<Rightarrow> int option" where
  "item_id (PDict kvs) = (case map_of kvs ''id'' of Some v \<Rightarrow> int_id v | None \<Rightarrow> None)"
| "item_id _ = None"

fun is_record :: "pyval \<Rightarrow> bool" where
  "is_record (PDict kvs) = True"
| "is_record _ = False"

fun page_items :: "fetch \<Rightarrow> pyval list" where
  "page_items (FetchData (PDict kvs)) =
     (case map_of kvs ''prayers'' of Some (PList xs) \<Rightarrow> xs | _ \<Rightarrow> [])"
| "page_items _ = []"

fun empty_page :: "fetch \<Rightarrow> bool" where
  "empty_page (FetchData (PDict kvs)) =
     (case map_of kvs ''prayers'' of None \<Rightarrow> True | Some v \<Rightarrow> \<not> py_truthy v)"
| "empty_page _ = False"

definition first_by_id :: "pyval list \<Rightarrow> pyval list" where
  "first_by_id xs =
     nths xs {i. i < length xs \<and> is_record (xs ! i) \<and>
                 (\<forall>j<i. item_id (xs ! j) = None \<or> item_id (xs ! j) \<noteq> item_id (xs ! i))}"

text \<open>For the total reported by the server: the total after one more page (a page
  that carries no \<open>totalCount\<close> leaves it as it is), the total known after a list of
  pages, a page whose array is non-empty and can be iterated, and the integer ids that
  occur in a list of items.\<close>

fun next_total :: "pyval \<Rightarrow> fetch \<Rightarrow> pyval" where
  "next_total t (FetchData (PDict kvs)) =
     (case map_of kvs ''totalCount'' of Some v \<Rightarrow> v | None \<Rightarrow> t)"
| "next_total t _ = t"

definition known_total :: "(string \<Rightarrow> fetch) \<Rightarrow> string list \<Rightarrow> pyval" where
  "known_total net urls = foldl (\<lambda>t u. next_total t (net u)) PNone urls"

fun full_page :: "fetch \<Rightarrow> bool" where
  "full_page (FetchData (PDict kvs)) =
     (case map_of kvs ''prayers'' of
        None \<Rightarrow> False
      | Some v \<Rightarrow> py_truthy v \<and> (case py_iter v of Inl e \<Rightarrow> False | Inr ps \<Rightarrow> True))"
| "full_page _ = False"

definition seen_in :: "pyval list \<Rightarrow> int set" where
  "seen_in xs = set (List.map_filter item_id xs)"

text \<open>Auxiliary notions of the proofs: the positions of a list that \<open>yield_page\<close>
  keeps, the seen-set after one item, what a turn of the loop yields, and the end of a
  turn once the page has been iterated.\<close>

definition kept :: "int set \<Rightarrow> pyval list \<Rightarrow> nat set" where
  "kept seen xs =
     {i. i < length xs \<and> is_record (xs ! i) \<and>
         (\<forall>a. item_id (xs ! i) = Some a \<longrightarrow> a \<notin> seen \<and> (\<forall>j<i. item_id (xs ! j) \<noteq> Some a))}"

definition seen_after :: "int set \<Rightarrow> pyval \<Rightarrow> int set" where
  "seen_after seen x = (case item_id x of Some a \<Rightarrow> insert a seen | None \<Rightarrow> seen)"

fun step_yields :: "step \<Rightarrow> pyval list" where
  "step_yields (Halt ys out) = ys"
| "step_yields (Next_page ys s t) = ys"

definition after_page :: "(string \<Rightarrow> int option) \<Rightarrow> pyval list \<Rightarrow> int set \<Rightarrow> pyval \<Rightarrow> step" where
  "after_page str_int ys seen' tot' =
     (if tot' \<noteq> PNone then
        (case py_int str_int tot' of
           Inl e \<Rightarrow> Halt ys (Raised e)
         | Inr t \<Rightarrow> if int (card seen') \<ge> t then Halt ys Stopped else Next_page ys seen' tot')
      else Next_page ys seen' tot')"


section \<open>Paths and the file system\<close>

text \<open>
  \<open>os.path\<close> is the POSIX one. \<open>s.rfind(c)\<close> is the last index of \<open>c\<close>, or \<open>-1\<close>.
\<close>

definition rfind :: "char \<Rightarrow> string \<Rightarrow> int" where
  "rfind c s =
     (if c \<in> set s then int (length s) - 1 - int (length (takeWhile (\<lambda>x. x \<noteq> c) (rev s)))
      else - 1)"

text \<open>\<open>os.path.splitext\<close>: the extension starts at the last dot of the last component,
  unless only dots come before it in that component.\<close>

definition splitext :: "path \<Rightarrow> string \<times> string" where
  "splitext p =
     (let sepIndex = rfind CHR ''/'' p;
          dotIndex = rfind CHR ''.'' p
      in if dotIndex > sepIndex \<and>
            (\<exists>c \<in> set (drop (nat (sepIndex + 1)) (take (nat dotIndex) p)). c \<noteq> CHR ''.'')
         then (take (nat dotIndex) p, drop (nat dotIndex) p)
         else (p, []))"

definition dirname :: "path \<Rightarrow> path" where
  "dirname p =
     (let head = take (nat (rfind CHR ''/'' p + 1)) p
      in if head \<noteq> [] \<and> head \<noteq> replicate (length head) CHR ''/''
         then rev (dropWhile (\<lambda>c. c = CHR ''/'') (rev head))
         else head)"

text \<open>\<open>os.path.join\<close> of two components.\<close>

definition path_join :: "path \<Rightarrow> path \<Rightarrow> path" where
  "path_join a b =
     (if prefix ''/'' b then b
      else if a = [] \<or> last a = CHR ''/'' then a @ b
      else a @ ''/'' @ b)"

text \<open>\<open>s.lower()\<close> on code points below 256: the ASCII capitals and the Latin-1
  capitals move up by 32.\<close>

definition lower_char :: "char \<Rightarrow> char" where
  "lower_char c =
     (let n = (of_char c :: nat)
      in if (65 \<le> n \<and> n \<le> 90) \<or> (192 \<le> n \<and> n \<le> 222 \<and> n \<noteq> 215) then char_of (n + 32)
         else c)"

definition py_lower :: "string \<Rightarrow> string" where
  "py_lower s = map lower_char s"

text \<open>
  The file system is the list of its entries, each path once: a regular file with its
  content, or a directory. Paths are compared as strings, so they are taken
  normalised (no empty, \<open>.\<close> or \<open>..\<close> component). No other process writes to it.
\<close>

datatype entry = File bytes | Dir

type_synonym fs = "(path \<times> entry) list"

definition path_exists :: "fs \<Rightarrow> path \<Rightarrow> bool" where
  "path_exists fs p = (map_of fs p \<noteq> None)"

text \<open>\<open>os.path.getsize\<close> of an existing path. The size of a directory is what the
  operating system reports, the parameter \<open>dir_size\<close>.\<close>

definition getsize :: "nat \<Rightarrow> fs \<Rightarrow> path \<Rightarrow> nat" where
  "getsize dir_size fs p =
     (case map_of fs p of Some (File b) \<Rightarrow> length b | Some Dir \<Rightarrow> dir_size | None \<Rightarrow> 0)"

definition is_file :: "fs \<Rightarrow> path \<Rightarrow> bool" where
  "is_file fs p = (case map_of fs p of Some (File b) \<Rightarrow> True | _ \<Rightarrow> False)"

text \<open>The directories above a path: its prefixes that end before a slash.\<close>

definition ancestors :: "path \<Rightarrow> path list" where
  "ancestors p = map (\<lambda>i. take i p) (filter (\<lambda>i. p ! i = CHR ''/'') [1..<length p])"

definition mkdir_missing :: "fs \<Rightarrow> path \<Rightarrow> fs" where
  "mkdir_missing fs p = (if map_of fs p = None then fs @ [(p, Dir)] else fs)"

text \<open>\<open>ensure_dir\<close> is \<open>os.makedirs(path, exist_ok=True)\<close>: it fails on the empty path
  and where a regular file is in the way, and creates the directories that are
  missing.\<close>

definition ensure_dir :: "fs \<Rightarrow> path \<Rightarrow> exn + fs" where
  "ensure_dir fs p =
     (if p = [] then Inl FileNotFoundError
      else if \<exists>q \<in> set (ancestors p). is_file fs q then Inl NotADirectoryError
      else if is_file fs p then Inl FileExistsError
      else Inr (foldl mkdir_missing fs (ancestors p @ [p])))"

text \<open>\<open>open(path, "wb")\<close> creates or truncates a regular file; \<open>open(path, "rb")\<close>
  and \<open>open(path, "r")\<close> read one.\<close>

definition open_wb :: "fs \<Rightarrow> path \<Rightarrow> exn + fs" where
  "open_wb fs p =
     (case map_of fs p of
        Some Dir \<Rightarrow> Inl IsADirectoryError
      | _ \<Rightarrow> Inr (AList.update p (File []) fs))"

definition open_read :: "fs \<Rightarrow> path \<Rightarrow> exn + bytes" where
  "open_read fs p =
     (case map_of fs p of
        None \<Rightarrow> Inl FileNotFoundError
      | Some Dir \<Rightarrow> Inl IsADirectoryError
      | Some (File b) \<Rightarrow> Inr b)"

definition write_chunk :: "path \<Rightarrow> fs \<Rightarrow> bytes \<Rightarrow> fs" where
  "write_chunk p fs chunk =
     (case map_of fs p of
        Some (File b) \<Rightarrow> AList.update p (File (b @ chunk)) fs
      | _ \<Rightarrow> fs)"

text \<open>\<open>os.remove\<close> inside \<open>try: ... except Exception: pass\<close>.\<close>

definition remove_quietly :: "fs \<Rightarrow> path \<Rightarrow> fs" where
  "remove_quietly fs p = (case map_of fs p of Some (File b) \<Rightarrow> AList.delete p fs | _ \<Rightarrow> fs)"

section \<open>Streaming download\<close>

text \<open>
  What the HTTP library does with one streamed GET: it raises before any data
  (transport failure, non-success status), or it delivers the \<open>Content-Type\<close> header,
  if there is one, and the chunks of the body, and may raise after them. The request
  headers are a function of the URL, so the response is taken as a function of the
  URL.
\<close>

datatype download = DownloadRaised exn | Download "string option" "bytes list" "exn option"

text \<open>What a call does: the file system afterwards, the URLs requested, and the
  exception raised, if any.\<close>

record call_result =
  fs_after :: fs
  fetched :: "string list"
  raised :: "exn option"

definition PDF_MAGIC :: bytes where
  "PDF_MAGIC = ''%PDF-''"

text \<open>The chunks each transport writes: \<open>requests\<close> skips empty chunks, \<open>urllib\<close>
  reads until the first empty one, which is the end of the body.\<close>

definition written_chunks :: "bool \<Rightarrow> bytes list \<Rightarrow> bytes list" where
  "written_chunks use_requests chunks =
     (if use_requests then filter (\<lambda>c. c \<noteq> []) chunks else takeWhile (\<lambda>c. c \<noteq> []) chunks)"

text \<open>Whether the exception after the chunks is met: \<open>urllib\<close> stops reading at an empty
  chunk.\<close>

definition stream_error :: "bool \<Rightarrow> bytes list \<Rightarrow> exn option \<Rightarrow> exn option" where
  "stream_error use_requests chunks err =
     (if use_requests \<or> (\<forall>c \<in> set chunks. c \<noteq> []) then err else None)"

text \<open>The check after the write. With \<open>requests\<close> it applies to a \<open>.pdf\<close> destination or
  a PDF content type, rejects an empty body, and rejects a body without the magic
  bytes only if the content type does not say PDF. With \<open>urllib\<close> it applies to a
  \<open>.pdf\<close> destination only, and the message does not name the content type.\<close>

definition validate_pdf :: "bool \<Rightarrow> path \<Rightarrow> string \<Rightarrow> bytes option \<Rightarrow> exn option" where
  "validate_pdf use_requests dest_path content_type first_chunk =
     (let ext = snd (splitext dest_path) in
      if use_requests then
        (if py_lower ext = ''.pdf'' \<or> sublist ''pdf'' content_type then
           (if first_chunk = None \<or>
               (\<not> prefix PDF_MAGIC (the first_chunk) \<and> \<not> sublist ''pdf'' content_type)
            then Some (RuntimeError (''Downloaded content is not a PDF (Content-Type: '' @
                        (if content_type \<noteq> [] then content_type else ''unknown'') @ '')''))
            else None)
         else None)
      else
        (if py_lower ext = ''.pdf'' then
           (if first_chunk = None \<or> \<not> prefix PDF_MAGIC (the first_chunk)
            then Some (RuntimeError ''Downloaded content is not a PDF'')
            else None)
         else None))"

text \<open>\<open>stream_download\<close>. \<open>use_requests\<close> says whether the module \<open>requests\<close> could be
  imported.\<close>

definition stream_download ::
  "bool \<Rightarrow> nat \<Rightarrow> (string \<Rightarrow> download) \<Rightarrow> fs \<Rightarrow> string \<Rightarrow> path \<Rightarrow> call_result" where
  "stream_download use_requests dir_size net fs url dest_path =
     (if path_exists fs dest_path \<and> getsize dir_size fs dest_path > 0
      then \<lparr>fs_after = fs, fetched = [], raised = None\<rparr>
      else
        (case ensure_dir fs (dirname dest_path) of
           Inl e \<Rightarrow> \<lparr>fs_after = fs, fetched = [], raised = Some e\<rparr>
         | Inr fs1 \<Rightarrow>
             (case net url of
                DownloadRaised e \<Rightarrow> \<lparr>fs_after = fs1, fetched = [url], raised = Some e\<rparr>
              | Download header chunks err \<Rightarrow>
                  (let content_type = py_lower (case header of Some h \<Rightarrow> h | None \<Rightarrow> [])
                   in case open_wb fs1 dest_path of
                        Inl e \<Rightarrow> \<lparr>fs_after = fs1, fetched = [url], raised = Some e\<rparr>
                      | Inr fs2 \<Rightarrow>
                          (let written = written_chunks use_requests chunks;
                               first_chunk = (case written of [] \<Rightarrow> None | c # _ \<Rightarrow> Some c);
                               fs3 = foldl (write_chunk dest_path) fs2 written
                           in case stream_error use_requests chunks err of
                                Some e \<Rightarrow> \<lparr>fs_after = fs3, fetched = [url], raised = Some e\<rparr>
                              | None \<Rightarrow>
                                  (case validate_pdf use_requests dest_path content_type
                                          first_chunk of
                                     Some e \<Rightarrow>
                                       \<lparr>fs_after = remove_quietly fs3 dest_path,
                                        fetched = [url], raised = Some e\<rparr>
                                   | None \<Rightarrow>
                                       \<lparr>fs_after = fs3, fetched = [url], raised = None\<rparr>))))))"




section \<open>PDF text extraction\<close>

text \<open>
  A name in a function body is looked up when the body runs: among the names the
  module binds at its top level, then among the builtins. \<open>module_globals\<close> are the
  names that crawl.py imports, assigns or defines; \<open>Path\<close> and \<open>PdfReader\<close> are not
  among them. \<open>builtin_names\<close> are the builtin functions and the exception classes the
  module uses.
\<close>

definition module_globals :: "string list" where
  "module_globals =
     [''annotations'', ''ast'', ''json'', ''os'', ''sys'', ''time'',
      ''Any'', ''Dict'', ''Iterable'', ''List'', ''Optional'', ''Set'', ''Tuple'',
      ''HTTPError'', ''URLError'', ''urlencode'', ''unquote'', ''urlparse'',
      ''Request'', ''urlopen'', ''requests'',
      ''BASE_API'', ''DEFAULT_HEADERS'',
      ''sanitize_name'', ''ensure_dir'', ''http_get_json'', ''stream_download'',
      ''load_category_mapping'', ''iter_prayers'', ''build_category_dirname'',
      ''build_prayer_dirname'', ''filename_from_url'', ''unique_filename'',
      ''save_metadata'', ''pdf_to_txt'', ''read_pdf_file'',
      ''download_assets_for_prayer'', ''scrape_category'', ''main'']"

definition builtin_names :: "string list" where
  "builtin_names =
     [''abs'', ''aiter'', ''all'', ''anext'', ''any'', ''ascii'', ''bin'', ''bool'',
      ''breakpoint'', ''bytearray'', ''bytes'', ''callable'', ''chr'', ''classmethod'',
      ''compile'', ''complex'', ''delattr'', ''dict'', ''dir'', ''divmod'', ''enumerate'',
      ''eval'', ''exec'', ''filter'', ''float'', ''format'', ''frozenset'', ''getattr'',
      ''globals'', ''hasattr'', ''hash'', ''help'', ''hex'', ''id'', ''input'', ''int'',
      ''isinstance'', ''issubclass'', ''iter'', ''len'', ''list'', ''locals'', ''map'',
      ''max'', ''memoryview'', ''min'', ''next'', ''object'', ''oct'', ''open'', ''ord'',
      ''pow'', ''print'', ''property'', ''range'', ''repr'', ''reversed'', ''round'',
      ''set'', ''setattr'', ''slice'', ''sorted'', ''staticmethod'', ''str'', ''sum'',
      ''super'', ''tuple'', ''type'', ''vars'', ''zip'', ''__import__'',
      ''Exception'', ''RuntimeError'', ''True'', ''False'', ''None'']"

definition lookup_name :: "string \<Rightarrow> exn + unit" where
  "lookup_name n =
     (if n \<in> set module_globals \<or> n \<in> set builtin_names then Inr () else Inl (NameError n))"

text \<open>What the program prints, by kind of line rather than by its text.\<close>

datatype line =
    Corrupted path
  | Warn_document string path exn
  | Category_header pyval pyval
  | Downloaded nat
  | Category_failed pyval exn
  | Load_failed path exn
  | All_done nat
  | Traceback exn

text \<open>
  \<open>read_pdf_file\<close>: the text and the lines printed. The library behind the name
  \<open>PdfReader\<close> is the parameter \<open>pypdf\<close>: from the bytes of a file, an exception or what
  \<open>extract_text\<close> gives for each page. Every exception in the \<open>try\<close> block, the
  \<open>NameError\<close> of an unbound name included, ends in the \<open>except\<close> clause.
\<close>

definition read_pdf_file ::
  "(bytes \<Rightarrow> exn + string option list) \<Rightarrow> fs \<Rightarrow> path \<Rightarrow> string \<times> line list" where
  "read_pdf_file pypdf fs pdf_file_path =
     (case open_read fs pdf_file_path of
        Inl e \<Rightarrow> ([], [Corrupted pdf_file_path])
      | Inr pdf_file \<Rightarrow>
          (case lookup_name ''PdfReader'' of
             Inl e \<Rightarrow> ([], [Corrupted pdf_file_path])
           | Inr _ \<Rightarrow>
               (case pypdf pdf_file of
                  Inl e \<Rightarrow> ([], [Corrupted pdf_file_path])
                | Inr pages \<Rightarrow>
                    (concat (map (\<lambda>t. case t of Some s \<Rightarrow> s | None \<Rightarrow> []) pages), []))))"

text \<open>\<open>pdf_to_txt\<close>, at its only call: \<open>file_path\<close> and \<open>output_dir\<close> are strings, and a
  \<open>str\<close> has no attribute \<open>stem\<close>, so the first line raises before any file is
  opened.\<close>

definition pdf_to_txt :: "fs \<Rightarrow> string \<Rightarrow> string \<Rightarrow> string \<Rightarrow> exn + fs" where
  "pdf_to_txt fs file_path output_dir extracted_text = Inl AttributeError"

text \<open>The \<open>try\<close> block for one document in \<open>download_assets_for_prayer\<close>, with the
  functions it calls, in order.\<close>

record doc_result =
  doc_fs :: fs
  doc_fetched :: "string list"
  doc_printed :: "line list"
  doc_calls :: "string list"

definition download_document ::
  "bool \<Rightarrow> nat \<Rightarrow> (string \<Rightarrow> download) \<Rightarrow> (bytes \<Rightarrow> exn + string option list) \<Rightarrow> fs
     \<Rightarrow> string \<Rightarrow> path \<Rightarrow> path \<Rightarrow> doc_result" where
  "download_document use_requests dir_size net pypdf fs url dest docs_dir =
     (let r = stream_download use_requests dir_size net fs url dest in
      case raised r of
        Some e \<Rightarrow>
          \<lparr>doc_fs = fs_after r, doc_fetched = fetched r,
           doc_printed = [Warn_document url dest e], doc_calls = [''stream_download'']\<rparr>
      | None \<Rightarrow>
          (let (extracted_text, printed) = read_pdf_file pypdf (fs_after r) dest in
           if extracted_text \<noteq> [] then
             (case pdf_to_txt (fs_after r) dest docs_dir extracted_text of
                Inl e \<Rightarrow>
                  \<lparr>doc_fs = fs_after r, doc_fetched = fetched r,
                   doc_printed = printed @ [Warn_document url dest e],
                   doc_calls = [''stream_download'', ''read_pdf_file'', ''pdf_to_txt'']\<rparr>
              | Inr fs' \<Rightarrow>
                  \<lparr>doc_fs = fs', doc_fetched = fetched r, doc_printed = printed,
                   doc_calls = [''stream_download'', ''read_pdf_file'', ''pdf_to_txt'']\<rparr>)
           else
             \<lparr>doc_fs = fs_after r, doc_fetched = fetched r, doc_printed = printed,
              doc_calls = [''stream_download'', ''read_pdf_file'']\<rparr>))"

section \<open>Top-level driver\<close>

text \<open>
  What \<open>json.loads\<close> and \<open>ast.literal_eval\<close> make of the mapping file: a dictionary,
  whose keys may be any hashable literal, or something that has no \<open>items\<close>. Both
  parsers are parameters.
\<close>

datatype parsed = ParsedDict "(pyval \<times> pyval) list" | ParsedOther

text \<open>\<open>try: ik = int(k) except Exception: ik = k\<close>.\<close>

definition int_key :: "(string \<Rightarrow> int option) \<Rightarrow> pyval \<Rightarrow> pyval" where
  "int_key str_int k = (case py_int str_int k of Inr i \<Rightarrow> PInt i | Inl e \<Rightarrow> k)"

definition load_category_mapping ::
  "(string \<Rightarrow> exn + parsed) \<Rightarrow> (string \<Rightarrow> exn + parsed) \<Rightarrow> (string \<Rightarrow> int option) \<Rightarrow> fs \<Rightarrow> path
     \<Rightarrow> exn + (pyval \<times> pyval) list" where
  "load_category_mapping json_loads literal_eval str_int fs mapping_path =
     (case open_read fs mapping_path of
        Inl e \<Rightarrow> Inl e
      | Inr raw \<Rightarrow>
          (case (case json_loads raw of
                   Inl JSONDecodeError \<Rightarrow> literal_eval raw
                 | other \<Rightarrow> other) of
             Inl e \<Rightarrow> Inl e
           | Inr ParsedOther \<Rightarrow> Inl AttributeError
           | Inr (ParsedDict items) \<Rightarrow>
               Inr (foldl (\<lambda>mapping (k, v). AList.update (int_key str_int k) v mapping) []
                      items)))"

text \<open>
  The loop over the categories in \<open>main\<close>. \<open>scrape_category\<close> is the parameter
  \<open>scrape\<close>: from the file system, the category id, the title and the output root, an
  exception or the number of prayers, and the file system afterwards. The result is
  what goes to standard output, to standard error, the total and the file system.
\<close>

fun categories ::
  "(fs \<Rightarrow> int \<Rightarrow> pyval \<Rightarrow> path \<Rightarrow> (exn + nat) \<times> fs) \<Rightarrow> (string \<Rightarrow> int option) \<Rightarrow> path \<Rightarrow> fs
     \<Rightarrow> (pyval \<times> pyval) list \<Rightarrow> nat \<Rightarrow> line list \<times> line list \<times> nat \<times> fs" where
  "categories scrape str_int output_root fs [] total_prayers = ([], [], total_prayers, fs)"
| "categories scrape str_int output_root fs ((category_id, category_title) # rest) total_prayers =
     (case py_int str_int category_id of
        Inl e \<Rightarrow>
          (let (out, err, t, fs') = categories scrape str_int output_root fs rest total_prayers
           in (Category_header category_id category_title # out,
               Category_failed category_id e # err, t, fs'))
      | Inr cid \<Rightarrow>
          (case scrape fs cid category_title output_root of
             (Inl e, fs1) \<Rightarrow>
               (let (out, err, t, fs') =
                      categories scrape str_int output_root fs1 rest total_prayers
                in (Category_header category_id category_title # out,
                    Category_failed category_id e # err, t, fs'))
           | (Inr count, fs1) \<Rightarrow>
               (let (out, err, t, fs') =
                      categories scrape str_int output_root fs1 rest (total_prayers + count)
                in (Category_header category_id category_title # Downloaded count # out,
                    err, t, fs'))))"

text \<open>A run of the program: its exit status, the two output streams and the file system
  it leaves. An exception that nothing catches ends the interpreter with status 1,
  after the traceback.\<close>

record run =
  exit_status :: nat
  stdout :: "line list"
  stderr :: "line list"
  final_fs :: fs

definition main ::
  "(string \<Rightarrow> exn + parsed) \<Rightarrow> (string \<Rightarrow> exn + parsed) \<Rightarrow> (string \<Rightarrow> int option)
     \<Rightarrow> (fs \<Rightarrow> int \<Rightarrow> pyval \<Rightarrow> path \<Rightarrow> (exn + nat) \<times> fs) \<Rightarrow> path \<Rightarrow> fs \<Rightarrow> run" where
  "main json_loads literal_eval str_int scrape project_root fs =
     (let mapping_path = path_join project_root ''category_mapping.json'';
          output_root = path_join project_root ''downloads''
      in case ensure_dir fs output_root of
           Inl e \<Rightarrow> \<lparr>exit_status = 1, stdout = [], stderr = [Traceback e], final_fs = fs\<rparr>
         | Inr fs1 \<Rightarrow>
             (case load_category_mapping json_loads literal_eval str_int fs1 mapping_path of
                Inl e \<Rightarrow>
                  \<lparr>exit_status = 1, stdout = [], stderr = [Load_failed mapping_path e],
                   final_fs = fs1\<rparr>
              | Inr mapping \<Rightarrow>
                  (let (out, err, total_prayers, fs2) =
                         categories scrape str_int output_root fs1 mapping 0
                   in \<lparr>exit_status = 0, stdout = out @ [All_done total_prayers],
                       stderr = err, final_fs = fs2\<rparr>)))"









section \<open>Example inputs\<close>

text \<open>A category of three prayers on two pages that overlap, and the same category
  when the server fails after the first page.\<close>

definition ex_item :: "int \<Rightarrow> pyval" where
  "ex_item i = PDict [(''id'', PInt i), (''name'', PStr ''prayer'')]"

definition ex_net :: "string \<Rightarrow> fetch" where
  "ex_net url =
     (if url = page_url 12 0 then FetchData (PDict [(''prayers'', PList [ex_item 1, ex_item 2])])
      else if url = page_url 12 1 then FetchData (PDict [(''prayers'', PList [ex_item 2, ex_item 3])])
      else if url = page_url 12 2 then FetchData (PDict [(''prayers'', PList [])])
      else FetchData (PDict [(''prayers'', PList [ex_item 9])]))"

definition ex_net_down :: "string \<Rightarrow> fetch" where
  "ex_net_down url =
     (if url = page_url 12 0 then FetchData (PDict [(''prayers'', PList [ex_item 1, ex_item 2])])
      else FetchRaised FetchError)"


text \<open>The same three prayers without overlap, the total reported on the first page
  only, and more pages behind them.\<close>

definition ex_net_total :: "string \<Rightarrow> fetch" where
  "ex_net_total url =
     (if url = page_url 12 0
      then FetchData (PDict [(''totalCount'', PInt 3), (''prayers'', PList [ex_item 1, ex_item 2])])
      else if url = page_url 12 1 then FetchData (PDict [(''prayers'', PList [ex_item 3])])
      else FetchData (PDict [(''prayers'', PList [ex_item 9])]))"


definition ex_html :: "string \<Rightarrow> download" where
  "ex_html url = Download (Some ''text/html'') [''<html>''] None"

text \<open>A PDF library that finds one page with the text \<open>Hello\<close> in every file, and a
  downloaded document.\<close>

definition ex_pypdf :: "bytes \<Rightarrow> exn + string option list" where
  "ex_pypdf data = Inr [Some ''Hello'']"

definition ex_pdf_server :: "string \<Rightarrow> download" where
  "ex_pdf_server url = Download (Some ''application/pdf'') [''%PDF-1.4 Hello''] None"

definition ex_docs :: fs where
  "ex_docs = [(''documents'', Dir), (''documents/01 - test.pdf'', File ''%PDF-1.4 Hello'')]"

text \<open>A project directory with a mapping of three categories, the last with a key
  that is no number; the parsers that go with it; a category crawl that fails for
  category 12, leaving a directory behind, and finds three prayers in any other; and
  the same project with a regular file where the output directory should be.\<close>

definition ex_project :: fs where
  "ex_project = [(''proj'', Dir), (''proj/category_mapping.json'', File ''{...}'')]"



definition ex_json_loads :: "string \<Rightarrow> exn + parsed" where
  "ex_json_loads raw =
     Inr (ParsedDict [(PStr ''12'', PStr ''Morning Prayers''),
                      (PStr ''13'', PStr ''Evening Prayers''), (PStr ''x'', PStr ''Other'')])"

definition ex_literal_eval :: "string \<Rightarrow> exn + parsed" where
  "ex_literal_eval raw = Inl ValueError"

definition ex_str_int :: "string \<Rightarrow> int option" where
  "ex_str_int s = (if s = ''12'' then Some 12 else if s = ''13'' then Some 13 else None)"

definition ex_scrape :: "fs \<Rightarrow> int \<Rightarrow> pyval \<Rightarrow> path \<Rightarrow> (exn + nat) \<times> fs" where
  "ex_scrape fs category_id title output_root =
     (if category_id = 12
      then (Inl FetchError, fs @ [(''proj/downloads/12 - Morning Prayers'', Dir)])
      else (Inr 3, fs))"

section \<open>Sanitizer\<close>

text \<open>\<open>"  " in name\<close>: two adjacent spaces somewhere.\<close>

fun has_double_space :: "string \<Rightarrow> bool" where
  "has_double_space (a # b # rest) =
     ((a = CHR '' '' \<and> b = CHR '' '') \<or> has_double_space (b # rest))"
| "has_double_space _ = False"

text \<open>\<open>name.replace("  ", " ")\<close>: the non-overlapping occurrences, left to right.\<close>

fun replace_double_space :: "string \<Rightarrow> string" where
  "replace_double_space (a # b # rest) =
     (if a = CHR '' '' \<and> b = CHR '' '' then CHR '' '' # replace_double_space rest
      else a # replace_double_space (b # rest))"
| "replace_double_space s = s"

lemma length_replace_double_space_le:
  "length (replace_double_space s) \<le> length s"
  by (induction s rule: replace_double_space.induct) auto

lemma length_replace_double_space_less:
  "has_double_space s \<Longrightarrow> length (replace_double_space s) < length s"
proof (induction s rule: replace_double_space.induct)
  case (1 a b rest)
  show ?case
  proof (cases "a = CHR '' '' \<and> b = CHR '' ''")
    case True
    then show ?thesis
      using length_replace_double_space_le [of rest] by simp
  next
    case False
    with 1 show ?thesis by auto
  qed
qed simp_all

text \<open>The loop \<open>while "  " in name: name = name.replace("  ", " ")\<close>.\<close>

function collapse_spaces :: "string \<Rightarrow> string" where
  "collapse_spaces name =
     (if has_double_space name then collapse_spaces (replace_double_space name) else name)"
  by pat_completeness auto
termination
  by (relation "measure length") (auto simp: length_replace_double_space_less)

declare collapse_spaces.simps [simp del]

definition bad_chars :: "char list" where
  "bad_chars = [CHR ''/'', CHR 0x5C, CHR '':'', CHR ''*'', CHR ''?'', CHR 0x22,
                CHR ''<'', CHR ''>'', CHR ''|'']"

definition sanitize_name :: "string \<Rightarrow> string" where
  "sanitize_name raw =
     (if raw = [] then ''Untitled''
      else
        let name = map (\<lambda>c. if c \<in> set bad_chars then CHR ''-'' else c) raw;
            name = py_strip_chars ''.'' (py_strip name);
            name = collapse_spaces name
        in if name = [] then ''Untitled'' else name)"

section \<open>Asset file names\<close>

text \<open>The candidates of \<open>unique_filename\<close> after the base name: \<open>f"{root} ({counter}){ext}"\<close>.\<close>

definition candidate_name :: "string \<Rightarrow> string \<Rightarrow> nat \<Rightarrow> string" where
  "candidate_name root ext counter = root @ '' ('' @ py_str_nat counter @ '')'' @ ext"

lemma py_str_nat_not_Nil: "py_str_nat n \<noteq> []"
  by (subst py_str_nat.simps) simp

lemma digit_char_inject: "a < 10 \<Longrightarrow> b < 10 \<Longrightarrow> digit_char a = digit_char b \<Longrightarrow> a = b"
proof -
  assume a: "a < 10" and b: "b < 10" and eq: "digit_char a = digit_char b"
  have "(of_char (char_of (48 + a)) :: nat) = of_char (char_of (48 + b))"
    using eq by (simp add: digit_char_def)
  with a b show "a = b" by simp
qed

lemma py_str_nat_inject: "py_str_nat m = py_str_nat n \<Longrightarrow> m = n"
proof (induction m arbitrary: n rule: py_str_nat.induct)
  case (1 m)
  show ?case
  proof (cases "m < 10")
    case m: True
    show ?thesis
    proof (cases "n < 10")
      case True
      with m "1.prems" show ?thesis
        by (simp add: py_str_nat.simps [of m] py_str_nat.simps [of n] digit_char_inject)
    next
      case False
      with m "1.prems" py_str_nat_not_Nil [of "n div 10"] show ?thesis
        by (simp add: py_str_nat.simps [of m] py_str_nat.simps [of n])
    qed
  next
    case m: False
    show ?thesis
    proof (cases "n < 10")
      case True
      with m "1.prems" py_str_nat_not_Nil [of "m div 10"] show ?thesis
        by (simp add: py_str_nat.simps [of m] py_str_nat.simps [of n])
    next
      case False
      with m "1.prems"
      have q: "py_str_nat (m div 10) = py_str_nat (n div 10)"
        and d: "digit_char (m mod 10) = digit_char (n mod 10)"
        by (simp_all add: py_str_nat.simps [of m] py_str_nat.simps [of n])
      from "1.IH" [OF m q] have "m div 10 = n div 10" .
      moreover from d have "m mod 10 = n mod 10"
        by (rule digit_char_inject [rotated 2]) simp_all
      ultimately show ?thesis
        by (metis div_mult_mod_eq)
    qed
  qed
qed

lemma candidate_path_inject:
  "path_join d (candidate_name root ext j) = path_join d (candidate_name root ext k) \<Longrightarrow> j = k"
proof -
  assume eq: "path_join d (candidate_name root ext j) = path_join d (candidate_name root ext k)"
  have "prefix ''/'' (candidate_name root ext j) = prefix ''/'' (candidate_name root ext k)"
    by (cases root) (simp_all add: candidate_name_def)
  with eq have "candidate_name root ext j = candidate_name root ext k"
    by (auto simp: path_join_def split: if_splits)
  then show "j = k"
    by (simp add: candidate_name_def py_str_nat_inject)
qed

lemma finite_taken_candidates:
  "finite {k. path_exists fs (path_join d (candidate_name root ext k))}"
proof -
  have "inj (\<lambda>k. path_join d (candidate_name root ext k))"
    by (rule injI) (rule candidate_path_inject)
  then have "finite ((\<lambda>k. path_join d (candidate_name root ext k)) -` fst ` set fs)"
    by (intro finite_vimageI) simp_all
  moreover have "{k. path_exists fs (path_join d (candidate_name root ext k))}
                 \<subseteq> (\<lambda>k. path_join d (candidate_name root ext k)) -` fst ` set fs"
  proof
    fix k
    assume "k \<in> {k. path_exists fs (path_join d (candidate_name root ext k))}"
    then obtain e where "map_of fs (path_join d (candidate_name root ext k)) = Some e"
      by (auto simp: path_exists_def)
    then have "(path_join d (candidate_name root ext k), e) \<in> set fs"
      by (rule map_of_SomeD)
    then have "fst (path_join d (candidate_name root ext k), e) \<in> fst ` set fs"
      by (rule imageI)
    then show "k \<in> (\<lambda>k. path_join d (candidate_name root ext k)) -` fst ` set fs"
      by simp
  qed
  ultimately show ?thesis
    by (rule rev_finite_subset)
qed

text \<open>The loop \<open>while os.path.exists(os.path.join(directory, candidate))\<close>. It ends
  because the candidates are pairwise different and the directory is finite.\<close>

function unique_loop :: "fs \<Rightarrow> path \<Rightarrow> string \<Rightarrow> string \<Rightarrow> string \<Rightarrow> nat \<Rightarrow> string" where
  "unique_loop fs directory root ext candidate counter =
     (if path_exists fs (path_join directory candidate)
      then unique_loop fs directory root ext (candidate_name root ext counter) (Suc counter)
      else candidate)"
  by pat_completeness auto
termination
proof (relation "measure (\<lambda>(fs, d, root, ext, candidate, counter).
          (if path_exists fs (path_join d candidate) then 1 else 0) +
          card {k. counter \<le> k \<and> path_exists fs (path_join d (candidate_name root ext k))})")
  show "wf (measure (\<lambda>(fs, d, root, ext, candidate, counter).
          (if path_exists fs (path_join d candidate) then 1 else 0) +
          card {k. counter \<le> k \<and> path_exists fs (path_join d (candidate_name root ext k))}))"
    by simp
next
  fix fs :: fs and directory root ext candidate :: string and counter :: nat
  assume taken: "path_exists fs (path_join directory candidate)"
  let ?A = "\<lambda>c. {k. c \<le> k \<and> path_exists fs (path_join directory (candidate_name root ext k))}"
  have fin: "finite (?A counter)"
    using finite_taken_candidates [of fs directory root ext] by (rule rev_finite_subset) auto
  have "(if path_exists fs (path_join directory (candidate_name root ext counter)) then 1 else 0)
          + card (?A (Suc counter)) = card (?A counter)"
  proof (cases "path_exists fs (path_join directory (candidate_name root ext counter))")
    case True
    then have "?A counter = insert counter (?A (Suc counter))"
      by (auto simp: le_Suc_eq)
    moreover have "?A (Suc counter) \<subseteq> ?A counter"
      by auto
    with fin have "finite (?A (Suc counter))"
      by (rule rev_finite_subset)
    moreover have "counter \<notin> ?A (Suc counter)"
      by simp
    ultimately show ?thesis
      using True by simp
  next
    case False
    then have "?A counter = ?A (Suc counter)"
      by (auto simp: Suc_le_eq order_less_le)
    with False show ?thesis by simp
  qed
  with taken
  show "((fs, directory, root, ext, candidate_name root ext counter, Suc counter),
         (fs, directory, root, ext, candidate, counter))
        \<in> measure (\<lambda>(fs, d, root, ext, candidate, counter).
          (if path_exists fs (path_join d candidate) then 1 else 0) +
          card {k. counter \<le> k \<and> path_exists fs (path_join d (candidate_name root ext k))})"
    by simp
qed

declare unique_loop.simps [simp del]

definition unique_filename :: "fs \<Rightarrow> path \<Rightarrow> string \<Rightarrow> string" where
  "unique_filename fs directory base_name =
     (let (root, ext) = splitext base_name
      in unique_loop fs directory root ext base_name 1)"

text \<open>\<open>f"{index:02d}"\<close>, and the name of an asset before it is made unique:
  \<open>f"{index:02d} - {root}{ext}"\<close>; a document without extension gets \<open>.pdf\<close>.\<close>

definition two_digits :: "nat \<Rightarrow> string" where
  "two_digits index = (if index < 10 then CHR ''0'' # py_str_nat index else py_str_nat index)"

definition track_name :: "nat \<Rightarrow> string \<Rightarrow> string" where
  "track_name index fname =
     (let (root, ext) = splitext fname in two_digits index @ '' - '' @ root @ ext)"

definition document_name :: "nat \<Rightarrow> string \<Rightarrow> string" where
  "document_name index fname =
     (let (root, ext) = splitext fname;
          ext = (if ext = [] then ''.pdf'' else ext)
      in two_digits index @ '' - '' @ root @ ext)"

text \<open>The decimal digits.\<close>

definition digits :: "char list" where
  "digits = ''0123456789''"

section \<open>Properties of the pagination iterator\<close>

lemma yield_page_Cons:
  "yield_page seen (x # xs) =
     ((if is_record x \<and> (\<forall>a. item_id x = Some a \<longrightarrow> a \<notin> seen) then [x] else [])
        @ fst (yield_page (seen_after seen x) xs),
      snd (yield_page (seen_after seen x) xs))"
  by (cases x) (auto simp: seen_after_def insert_absorb split: option.splits prod.splits)

lemma kept_shift: "{j. Suc j \<in> kept seen (x # xs)} = kept (seen_after seen x) xs"
  by (auto simp: kept_def seen_after_def All_less_Suc2 split: option.splits)

lemma kept_zero: "0 \<in> kept seen (x # xs) \<longleftrightarrow> is_record x \<and> (\<forall>a. item_id x = Some a \<longrightarrow> a \<notin> seen)"
  by (auto simp: kept_def)

lemma yield_page_kept: "fst (yield_page seen xs) = nths xs (kept seen xs)"
proof (induction xs arbitrary: seen)
  case Nil
  then show ?case by simp
next
  case (Cons x xs)
  show ?case
    unfolding yield_page_Cons nths_Cons kept_shift kept_zero
    using Cons.IH [of "seen_after seen x"] by simp
qed

lemma first_by_id_kept: "first_by_id xs = fst (yield_page {} xs)"
  unfolding yield_page_kept first_by_id_def kept_def
  by (rule arg_cong [where f = "nths xs"]) (auto; metis option.exhaust)
lemma yield_page_append:
  "yield_page seen (xs @ ys) =
     (fst (yield_page seen xs) @ fst (yield_page (snd (yield_page seen xs)) ys),
      snd (yield_page (snd (yield_page seen xs)) ys))"
proof (induction xs arbitrary: seen)
  case Nil
  then show ?case by simp
next
  case (Cons x xs)
  show ?case
    using Cons.IH [of "seen_after seen x"]
    by (simp add: yield_page_Cons)
qed

lemma yield_page_seen:
  "snd (yield_page seen xs) = seen \<union> {a. \<exists>x\<in>set xs. item_id x = Some a}"
proof (induction xs arbitrary: seen)
  case Nil
  then show ?case by simp
next
  case (Cons x xs)
  show ?case
    using Cons.IH [of "seen_after seen x"]
    by (auto simp: yield_page_Cons seen_after_def split: option.splits)
qed

lemma item_id_record: "item_id x = Some a \<Longrightarrow> is_record x"
  by (cases x) simp_all

lemma yield_page_subseq: "subseq (fst (yield_page seen xs)) xs"
  unfolding subseq_conv_nths yield_page_kept by blast

lemma yield_page_ids:
  "distinct (List.map_filter item_id (fst (yield_page seen xs))) \<and>
   set (List.map_filter item_id (fst (yield_page seen xs))) \<inter> seen = {} \<and>
   snd (yield_page seen xs) = seen \<union> set (List.map_filter item_id (fst (yield_page seen xs)))"
proof (induction xs arbitrary: seen)
  case Nil
  then show ?case by (simp add: map_filter_simps)
next
  case (Cons x xs)
  show ?case
    using Cons.IH [of "seen_after seen x"]
    by (auto simp: yield_page_Cons seen_after_def map_filter_simps dest: item_id_record split: option.splits)
qed

lemma yield_page_finite: "finite seen \<Longrightarrow> finite (snd (yield_page seen xs))"
  using yield_page_ids [of seen xs] by (metis List.finite_set finite_Un)

lemma yield_page_records: "\<forall>x\<in>set (fst (yield_page seen xs)). is_record x"
  unfolding yield_page_kept by (auto simp: set_nths kept_def)

lemma yield_page_no_records: "\<forall>x\<in>set xs. \<not> is_record x \<Longrightarrow> yield_page seen xs = ([], seen)"
proof (induction xs arbitrary: seen)
  case Nil
  then show ?case by simp
next
  case (Cons x xs)
  then show ?case
    by (cases x) (simp_all add: yield_page_Cons seen_after_def)
qed

lemma py_iter_items:
  "py_truthy got \<Longrightarrow> py_iter got = Inr ps \<Longrightarrow> map_of kvs ''prayers'' = Some got \<Longrightarrow>
   yield_page seen ps = yield_page seen (page_items (FetchData (PDict kvs)))"
  by (cases got) (auto simp: yield_page_no_records)

lemma loop_body_yields:
  "step_yields (loop_body str_int seen tot data) = fst (yield_page seen (page_items (FetchData data)))"
proof (cases data)
  case (PDict kvs)
  show ?thesis
  proof (cases "map_of kvs ''prayers''")
    case None
    with PDict show ?thesis by (simp add: loop_body_def)
  next
    case (Some got)
    show ?thesis
    proof (cases "py_truthy got")
      case False
      with PDict Some show ?thesis by (cases got) (simp_all add: loop_body_def)
    next
      case True
      show ?thesis
      proof (cases "py_iter got")
        case (Inl e)
        with PDict Some True show ?thesis by (cases got) (simp_all add: loop_body_def)
      next
        case (Inr ps)
        from py_iter_items [OF True Inr Some]
        have "yield_page seen ps = yield_page seen (page_items (FetchData data))"
          using PDict by simp
        with PDict Some True Inr show ?thesis
          by (simp add: loop_body_def split_def Let_def split: sum.splits)
      qed
    qed
  qed
qed (simp_all add: loop_body_def)

lemma loop_body_empty:
  "empty_page (FetchData data) \<Longrightarrow> loop_body str_int seen tot data = Halt [] Stopped"
  by (cases data) (auto simp: loop_body_def split: option.splits)

lemma loop_body_next:
  assumes "loop_body str_int seen tot data = Next_page ys seen' tot'"
  shows "ys = fst (yield_page seen (page_items (FetchData data)))"
    and "seen' = snd (yield_page seen (page_items (FetchData data)))"
    and "\<not> empty_page (FetchData data)"
proof -
  show "ys = fst (yield_page seen (page_items (FetchData data)))"
    using loop_body_yields [of str_int seen tot data] assms by simp
  show "\<not> empty_page (FetchData data)"
    using loop_body_empty [of data str_int seen tot] assms by auto
  obtain kvs where d: "data = PDict kvs"
    using assms by (cases data) (simp_all add: loop_body_def)
  obtain got where g: "map_of kvs ''prayers'' = Some got" "py_truthy got"
    using assms d by (auto simp: loop_body_def split: option.splits if_splits)
  obtain ps where p: "py_iter got = Inr ps"
    using assms d g by (cases "py_iter got") (simp_all add: loop_body_def)
  have "seen' = snd (yield_page seen ps)"
    using assms d g p by (auto simp: loop_body_def split_def Let_def split: sum.splits if_splits)
  then show "seen' = snd (yield_page seen (page_items (FetchData data)))"
    using py_iter_items [OF g(2) p g(1), of seen] d by simp
qed

lemma iter_loop_requested:
  "requested (iter_loop str_int net base fuel page seen tot) =
     map (\<lambda>k. base @ py_str_nat k)
       [page..<page + length (requested (iter_loop str_int net base fuel page seen tot))]"
proof (induction fuel arbitrary: page seen tot)
  case 0
  then show ?case by simp
next
  case (Suc fuel)
  show ?case
  proof (cases "http_get_json net (base @ py_str_nat page)")
    case (Inl e)
    then show ?thesis by (simp add: upt_rec)
  next
    case (Inr data)
    show ?thesis
    proof (cases "loop_body str_int seen tot data")
      case (Halt ys out)
      with Inr show ?thesis by (simp add: upt_rec)
    next
      case (Next_page ys seen' tot')
      define r where "r = iter_loop str_int net base fuel (Suc page) seen' tot'"
      define n where "n = length (requested r)"
      have ih: "requested r = map (\<lambda>k. base @ py_str_nat k) [Suc page..<Suc page + n]"
        unfolding r_def n_def by (rule Suc.IH)
      have "[page..<page + Suc n] = page # [Suc page..<page + Suc n]"
        by (rule upt_conv_Cons) simp
      moreover have "page + Suc n = Suc page + n"
        by simp
      ultimately have "map (\<lambda>k. base @ py_str_nat k) [page..<page + Suc (length (requested r))]
                 = (base @ py_str_nat page) # requested r"
        unfolding n_def [symmetric] by (simp only: ih list.map)
      with Inr Next_page show ?thesis
        by (simp add: and_then_def r_def)
    qed
  qed
qed

lemma iter_loop_yielded:
  "yielded (iter_loop str_int net base fuel page seen tot) =
     fst (yield_page seen
       (concat (map (\<lambda>u. page_items (net u))
          (requested (iter_loop str_int net base fuel page seen tot)))))"
proof (induction fuel arbitrary: page seen tot)
  case 0
  then show ?case by simp
next
  case (Suc fuel)
  let ?u = "base @ py_str_nat page"
  show ?case
  proof (cases "net ?u")
    case (FetchRaised e)
    then show ?thesis by (simp add: http_get_json_def)
  next
    case (FetchData data)
    show ?thesis
    proof (cases "loop_body str_int seen tot data")
      case (Halt ys out)
      with FetchData loop_body_yields [of str_int seen tot data]
      show ?thesis by (simp add: http_get_json_def)
    next
      case (Next_page ys seen' tot')
      from loop_body_next [OF this] FetchData Next_page
        Suc.IH [of "Suc page" seen' tot']
      show ?thesis
        by (simp add: http_get_json_def and_then_def yield_page_append)
    qed
  qed
qed

lemma iter_loop_ends:
  assumes "k < length (requested (iter_loop str_int net base fuel page seen tot))"
    and "empty_page (net (requested (iter_loop str_int net base fuel page seen tot) ! k))
         \<or> (\<exists>e. net (requested (iter_loop str_int net base fuel page seen tot) ! k) = FetchRaised e)"
  shows "Suc k = length (requested (iter_loop str_int net base fuel page seen tot)) \<and>
         outcome (iter_loop str_int net base fuel page seen tot) = Stopped"
  using assms
proof (induction fuel arbitrary: page seen tot k)
  case 0
  then show ?case by simp
next
  case (Suc fuel)
  let ?u = "base @ py_str_nat page"
  show ?case
  proof (cases "net ?u")
    case (FetchRaised e)
    with Suc.prems show ?thesis by (simp add: http_get_json_def)
  next
    case (FetchData data)
    show ?thesis
    proof (cases "loop_body str_int seen tot data")
      case (Halt ys out)
      with FetchData Suc.prems loop_body_empty [of data str_int seen tot]
      show ?thesis by (auto simp: http_get_json_def)
    next
      case (Next_page ys seen' tot')
      note ne = loop_body_next(3) [OF this]
      show ?thesis
      proof (cases k)
        case 0
        with Suc.prems FetchData Next_page ne show ?thesis
          by (simp add: http_get_json_def and_then_def)
      next
        case (Suc k')
        with Suc.prems FetchData Next_page Suc.IH [of k' "Suc page" seen' tot']
        show ?thesis
          by (simp add: http_get_json_def and_then_def)
      qed
    qed
  qed
qed

lemma empty_page_items: "empty_page f \<Longrightarrow> page_items f = []"
proof (cases f)
  case (FetchData data)
  assume e: "empty_page f"
  show ?thesis
  proof (cases data)
    case (PDict kvs)
    show ?thesis
    proof (cases "map_of kvs ''prayers''")
      case None
      with FetchData PDict show ?thesis by simp
    next
      case (Some v)
      with FetchData PDict e show ?thesis by (cases v) simp_all
    qed
  qed (use FetchData in simp_all)
qed simp

lemma loop_body_no_page: "loop_body str_int seen tot (PDict []) = Halt [] Stopped"
  by (simp add: loop_body_def)

lemma iter_loop_failure_as_end:
  assumes "net u = FetchRaised e"
  shows "iter_loop str_int net base fuel page seen tot =
         iter_loop str_int (net(u := FetchData (PDict []))) base fuel page seen tot"
proof -
  define net' where "net' = net(u := FetchData (PDict []))"
  have at: "net' u = FetchData (PDict [])" and other: "\<And>v. v \<noteq> u \<Longrightarrow> net' v = net v"
    by (simp_all add: net'_def)
  have "iter_loop str_int net base fuel page seen tot =
        iter_loop str_int net' base fuel page seen tot"
  proof (induction fuel arbitrary: page seen tot)
    case 0
    then show ?case by simp
  next
    case (Suc fuel)
    show ?case
    proof (cases "base @ py_str_nat page = u")
      case True
      with assms at show ?thesis
        by (simp add: http_get_json_def loop_body_no_page)
    next
      case False
      from other [OF this] show ?thesis
        by (auto simp: http_get_json_def Let_def Suc.IH split: fetch.splits step.splits)
    qed
  qed
  then show ?thesis
    by (simp only: net'_def)
qed


lemma seen_in_iff: "a \<in> seen_in xs \<longleftrightarrow> (\<exists>x\<in>set xs. item_id x = Some a)"
  by (induction xs) (auto simp: seen_in_def map_filter_simps split: option.splits)

lemma yield_page_seen_in: "snd (yield_page seen xs) = seen \<union> seen_in xs"
  unfolding yield_page_seen by (auto simp: seen_in_iff)

lemma loop_body_full:
  assumes "full_page (FetchData data)"
  shows "loop_body str_int seen tot data =
           after_page str_int (fst (yield_page seen (page_items (FetchData data))))
             (seen \<union> seen_in (page_items (FetchData data))) (next_total tot (FetchData data))"
proof -
  obtain kvs where d: "data = PDict kvs"
    using assms by (cases data) simp_all
  obtain got where g: "map_of kvs ''prayers'' = Some got" "py_truthy got"
    using assms d by (auto split: option.splits)
  obtain ps where p: "py_iter got = Inr ps"
    using assms d g by (cases "py_iter got") simp_all
  have y: "yield_page seen ps = yield_page seen (page_items (FetchData data))"
    using py_iter_items [OF g(2) p g(1), of seen] d by simp
  have "loop_body str_int seen tot data =
          after_page str_int (fst (yield_page seen ps)) (snd (yield_page seen ps))
            (next_total tot (FetchData data))"
    using d g p by (simp add: loop_body_def after_page_def split_def Let_def)
  then show ?thesis
    unfolding y yield_page_seen_in .
qed









lemma after_page_no_total: "after_page str_int ys seen PNone = Next_page ys seen PNone"
  by (simp add: after_page_def)

lemma three_pages_then_empty:
  assumes f0: "full_page (net (page_url c 0))" and f1: "full_page (net (page_url c 1))"
    and t0: "known_total net [page_url c 0] = PNone"
    and t1: "known_total net [page_url c 0, page_url c 1] = PNone"
    and e2: "empty_page (net (page_url c 2))"
    and fuel: "3 \<le> fuel"
  shows "requested (iter_prayers str_int net c fuel) = [page_url c 0, page_url c 1, page_url c 2] \<and>
         outcome (iter_prayers str_int net c fuel) = Stopped"
proof -
  obtain f where fu: "fuel = Suc (Suc (Suc f))"
    using fuel by (metis Suc_le_D numeral_3_eq_3 Suc_le_mono)
  obtain d0 where n0: "net (page_url c 0) = FetchData d0"
    using f0 by (cases "net (page_url c 0)") simp_all
  obtain d1 where n1: "net (page_url c 1) = FetchData d1"
    using f1 by (cases "net (page_url c 1)") simp_all
  obtain d2 where n2: "net (page_url c 2) = FetchData d2"
    using e2 by (cases "net (page_url c 2)") simp_all
  have k0: "next_total PNone (FetchData d0) = PNone"
    using t0 by (simp add: known_total_def n0)
  have k1: "next_total PNone (FetchData d1) = PNone"
    using t1 n1 by (simp add: known_total_def n0 k0)
  have b0: "\<exists>ys s. loop_body str_int {} PNone d0 = Next_page ys s PNone"
    using loop_body_full [of d0 str_int "{}" PNone] f0
    by (simp add: n0 k0 after_page_no_total)
  have b1: "\<exists>ys. \<exists>s'. loop_body str_int s PNone d1 = Next_page ys s' PNone" for s
    using loop_body_full [of d1 str_int s PNone] f1 n1
    by (simp add: k1 after_page_no_total)
  have b2: "loop_body str_int s t d2 = Halt [] Stopped" for s t
    using e2 by (simp add: n2 loop_body_empty)
  obtain ys0 s0 where s0: "loop_body str_int {} PNone d0 = Next_page ys0 s0 PNone"
    using b0 by blast
  obtain ys1 s1 where s1: "loop_body str_int s0 PNone d1 = Next_page ys1 s1 PNone"
    using b1 by blast
  have u: "BASE_API c @ py_str_nat 0 = page_url c 0"
    "BASE_API c @ py_str_nat (Suc 0) = page_url c 1"
    "BASE_API c @ py_str_nat (Suc (Suc 0)) = page_url c 2"
    by (simp_all add: page_url_def numeral_2_eq_2)
  show ?thesis
    unfolding iter_prayers_def fu
    using n0 n1 n2 s0 s1 b2 [of s1 PNone]
    by (simp add: http_get_json_def and_then_def u)
qed


lemma iter_loop_out_of_fuel:
  "outcome (iter_loop str_int net base fuel page seen tot) = OutOfFuel \<Longrightarrow>
   length (requested (iter_loop str_int net base fuel page seen tot)) = fuel"
proof (induction fuel arbitrary: page seen tot)
  case 0
  then show ?case by simp
next
  case (Suc fuel)
  show ?case
  proof (cases "net (base @ py_str_nat page)")
    case (FetchRaised e)
    with Suc.prems show ?thesis by (simp add: http_get_json_def)
  next
    case (FetchData data)
    show ?thesis
    proof (cases "loop_body str_int seen tot data")
      case (Halt ys out)
      with FetchData Suc.prems have "out = OutOfFuel"
        by (simp add: http_get_json_def)
      moreover have "out \<noteq> OutOfFuel"
        using Halt
        by (auto simp: loop_body_def Let_def split_def
            split: sum.splits if_splits)
      ultimately show ?thesis by simp
    next
      case (Next_page ys seen' tot')
      with FetchData Suc.prems Suc.IH [of "Suc page" seen' tot'] show ?thesis
        by (simp add: http_get_json_def and_then_def)
    qed
  qed
qed

lemma iter_prayers_stops_by:
  assumes "empty_page (net (page_url c k)) \<or> (\<exists>e. net (page_url c k) = FetchRaised e)"
    and "k < fuel"
  shows "length (requested (iter_prayers str_int net c fuel)) \<le> Suc k \<and>
         outcome (iter_prayers str_int net c fuel) \<noteq> OutOfFuel"
proof -
  define r where "r = iter_loop str_int net (BASE_API c) fuel 0 {} PNone"
  have req: "requested r = map (\<lambda>j. BASE_API c @ py_str_nat j) [0..<length (requested r)]"
    using iter_loop_requested [of str_int net "BASE_API c" fuel 0 "{}" PNone]
    by (simp add: r_def)
  show ?thesis
  proof (cases "k < length (requested r)")
    case True
    then have "requested r ! k = page_url c k"
      by (subst req) (simp add: page_url_def)
    with assms(1) True
    have "Suc k = length (requested r) \<and> outcome r = Stopped"
      unfolding r_def by (intro iter_loop_ends) simp_all
    then show ?thesis
      by (simp add: iter_prayers_def r_def)
  next
    case False
    with assms(2) have "length (requested r) \<noteq> fuel"
      by simp
    then have "outcome r \<noteq> OutOfFuel"
      unfolding r_def using iter_loop_out_of_fuel by blast
    with False show ?thesis
      by (simp add: iter_prayers_def r_def)
  qed
qed

section \<open>Properties of the streaming download\<close>








section \<open>Properties of the asset file names\<close>

lemma unique_loop_spec:
  "\<not> path_exists fs (path_join d (unique_loop fs d root ext candidate counter)) \<and>
   (if \<not> path_exists fs (path_join d candidate)
    then unique_loop fs d root ext candidate counter = candidate
    else \<exists>n\<ge>counter. unique_loop fs d root ext candidate counter = candidate_name root ext n \<and>
           (\<forall>k. counter \<le> k \<and> k < n \<longrightarrow> path_exists fs (path_join d (candidate_name root ext k))))"
proof (induction fs d root ext candidate counter rule: unique_loop.induct)
  case (1 fs d root ext candidate counter)
  show ?case
  proof (cases "path_exists fs (path_join d candidate)")
    case False
    then show ?thesis
      by (simp add: unique_loop.simps [of fs d root ext candidate])
  next
    case True
    note ih = "1.IH" [OF True]
    have u: "unique_loop fs d root ext candidate counter =
             unique_loop fs d root ext (candidate_name root ext counter) (Suc counter)"
      using True by (simp add: unique_loop.simps [of fs d root ext candidate])
    show ?thesis
    proof (cases "path_exists fs (path_join d (candidate_name root ext counter))")
      case False
      with ih have "unique_loop fs d root ext (candidate_name root ext counter) (Suc counter)
                    = candidate_name root ext counter"
        by simp
      with True False u show ?thesis
        by (auto intro!: exI [of _ counter])
    next
      case t: True
      with ih obtain n where n: "Suc counter \<le> n"
        "unique_loop fs d root ext (candidate_name root ext counter) (Suc counter)
           = candidate_name root ext n"
        "\<forall>k. Suc counter \<le> k \<and> k < n \<longrightarrow> path_exists fs (path_join d (candidate_name root ext k))"
        by auto
      have "\<forall>k. counter \<le> k \<and> k < n \<longrightarrow> path_exists fs (path_join d (candidate_name root ext k))"
        using n(3) t by (metis Suc_leI le_neq_implies_less)
      with n(1,2) ih True u show ?thesis
        by (auto intro!: exI [of _ n])
    qed
  qed
qed

lemma unique_loop_free:
  "\<not> path_exists fs (path_join d candidate) \<Longrightarrow>
   unique_loop fs d root ext candidate counter = candidate"
  by (simp add: unique_loop.simps [of fs d root ext candidate])

lemma unique_loop_taken:
  "path_exists fs (path_join d candidate) \<Longrightarrow>
   unique_loop fs d root ext candidate counter =
   unique_loop fs d root ext (candidate_name root ext counter) (Suc counter)"
  by (simp add: unique_loop.simps [of fs d root ext candidate])

lemma path_exists_update:
  "path_exists (AList.update p e fs) q \<longleftrightarrow> q = p \<or> path_exists fs q"
  by (simp add: path_exists_def update_conv')

lemma candidate_path_not_base:
  "path_join d (candidate_name root ext n) \<noteq> path_join d (root @ ext)"
proof (cases root)
  case Nil
  show ?thesis
  proof
    assume eq: "path_join d (candidate_name root ext n) = path_join d (root @ ext)"
    then have "length (path_join d (candidate_name root ext n)) = length (path_join d (root @ ext))"
      by simp
    with Nil show False
      by (auto simp: path_join_def candidate_name_def split: if_splits)
  qed
next
  case (Cons c cs)
  show ?thesis
  proof
    assume eq: "path_join d (candidate_name root ext n) = path_join d (root @ ext)"
    have "prefix ''/'' (candidate_name root ext n) = prefix ''/'' (root @ ext)"
      using Cons by (simp add: candidate_name_def)
    with eq have "candidate_name root ext n = root @ ext"
      by (auto simp: path_join_def split: if_splits)
    then show False
      by (simp add: candidate_name_def)
  qed
qed

lemma splitext_append: "fst (splitext p) @ snd (splitext p) = p"
  by (simp add: splitext_def Let_def)

lemma py_str_nat_1: "py_str_nat 1 = ''1''"
  by code_simp

lemma py_str_nat_Suc_0: "py_str_nat (Suc 0) = ''1''"
  using py_str_nat_1 by simp

lemma py_str_nat_2: "py_str_nat 2 = ''2''"
  by code_simp

lemma candidate_one_two:
  "candidate_name root ext 1 = root @ '' (1)'' @ ext"
  "candidate_name root ext 2 = root @ '' (2)'' @ ext"
  by (simp_all add: candidate_name_def py_str_nat_Suc_0 py_str_nat_2)

lemma digit_chars: "map digit_char [0..<10] = digits"
  by code_simp

lemma digit_char_digit: "d < 10 \<Longrightarrow> digit_char d \<in> set digits"
proof -
  assume d: "d < 10"
  then have "digit_char d = map digit_char [0..<10] ! d"
    by simp
  also have "\<dots> \<in> set (map digit_char [0..<10])"
    by (rule nth_mem) (use d in simp)
  finally show ?thesis
    unfolding digit_chars .
qed

lemma py_str_nat_digits: "set (py_str_nat n) \<subseteq> set digits"
proof (induction n rule: py_str_nat.induct)
  case (1 n)
  show ?case
  proof (cases "n < 10")
    case True
    then show ?thesis
      by (simp add: py_str_nat.simps [of n] digit_char_digit)
  next
    case False
    with "1.IH" show ?thesis
      by (simp add: py_str_nat.simps [of n] digit_char_digit)
  qed
qed

lemma digit_char_0: "digit_char 0 = CHR ''0''"
  by code_simp

lemma py_str_nat_hd: "0 < n \<Longrightarrow> hd (py_str_nat n) \<noteq> CHR ''0''"
proof (induction n rule: py_str_nat.induct)
  case (1 n)
  show ?case
  proof (cases "n < 10")
    case True
    have "digit_char n \<noteq> digit_char 0"
      using digit_char_inject [of n 0] True "1.prems" by auto
    with True show ?thesis
      by (simp add: py_str_nat.simps [of n] digit_char_0)
  next
    case False
    then have "0 < n div 10"
      by simp
    with "1.IH" False have "hd (py_str_nat (n div 10)) \<noteq> CHR ''0''"
      by simp
    with False show ?thesis
      by (simp add: py_str_nat.simps [of n] py_str_nat_not_Nil)
  qed
qed

lemma two_digits_digits: "set (two_digits i) \<subseteq> set digits"
  using py_str_nat_digits [of i] by (auto simp: two_digits_def digits_def)

lemma two_digits_inject: "two_digits i = two_digits j \<Longrightarrow> i = j"
proof -
  assume eq: "two_digits i = two_digits j"
  have ne: "\<not> (a < 10 \<and> \<not> b < 10 \<and> two_digits a = two_digits b)" for a b
  proof
    assume h: "a < 10 \<and> \<not> b < 10 \<and> two_digits a = two_digits b"
    then have "hd (py_str_nat b) = CHR ''0''"
      by (simp add: two_digits_def) (metis list.sel(1))
    moreover from h have "0 < b" by simp
    ultimately show False
      using py_str_nat_hd by blast
  qed
  show "i = j"
  proof (cases "i < 10")
    case i: True
    show ?thesis
    proof (cases "j < 10")
      case True
      with i eq show ?thesis
        by (simp add: two_digits_def py_str_nat_inject)
    next
      case False
      with i eq ne [of i j] show ?thesis by simp
    qed
  next
    case i: False
    show ?thesis
    proof (cases "j < 10")
      case True
      with i eq ne [of j i] show ?thesis by simp
    next
      case False
      with i eq show ?thesis
        by (simp add: two_digits_def py_str_nat_inject)
    qed
  qed
qed

lemma digits_prefix_unique:
  assumes "set a \<subseteq> set digits" "set b \<subseteq> set digits" "a @ '' - '' @ r = b @ '' - '' @ s"
  shows "a = b"
proof -
  have sp: "CHR '' '' \<notin> set digits"
    by (simp add: digits_def)
  have "takeWhile (\<lambda>c. c \<in> set digits) (x @ '' - '' @ y) = x" if "set x \<subseteq> set digits" for x y
    using that sp by (induction x) auto
  from this [OF assms(1), of r] this [OF assms(2), of s] assms(3) show ?thesis
    by simp
qed

lemma track_name_index: "track_name i f = track_name j g \<Longrightarrow> i = j"
proof -
  assume "track_name i f = track_name j g"
  then have "two_digits i @ '' - '' @ (fst (splitext f) @ snd (splitext f)) =
             two_digits j @ '' - '' @ (fst (splitext g) @ snd (splitext g))"
    by (simp add: track_name_def split_def Let_def)
  then have "two_digits i = two_digits j"
    by (rule digits_prefix_unique [OF two_digits_digits two_digits_digits])
  then show "i = j"
    by (rule two_digits_inject)
qed

lemma document_name_index: "document_name i f = document_name j g \<Longrightarrow> i = j"
proof -
  define e where "e = (\<lambda>h. if snd (splitext h) = [] then ''.pdf'' else snd (splitext h))"
  assume "document_name i f = document_name j g"
  then have "two_digits i @ '' - '' @ (fst (splitext f) @ e f) =
             two_digits j @ '' - '' @ (fst (splitext g) @ e g)"
    by (simp add: document_name_def split_def Let_def e_def)
  then have "two_digits i = two_digits j"
    by (rule digits_prefix_unique [OF two_digits_digits two_digits_digits])
  then show "i = j"
    by (rule two_digits_inject)
qed


section \<open>Properties of the text extraction and of the driver\<close>

lemma lookup_PdfReader: "lookup_name ''PdfReader'' = Inl (NameError ''PdfReader'')"
  by code_simp

lemma lookup_Path: "lookup_name ''Path'' = Inl (NameError ''Path'')"
  by code_simp

lemma read_pdf_file_empty: "read_pdf_file pypdf fs p = ([], [Corrupted p])"
  by (simp add: read_pdf_file_def lookup_PdfReader split: sum.splits)








section \<open>Properties of the sanitizer\<close>

lemma set_replace_double_space: "set (replace_double_space s) \<subseteq> set s"
  by (induction s rule: replace_double_space.induct) auto

lemma set_collapse_spaces: "set (collapse_spaces s) \<subseteq> set s"
proof (induction s rule: collapse_spaces.induct)
  case (1 name)
  show ?case
  proof (cases "has_double_space name")
    case True
    with "1.IH" set_replace_double_space [of name] show ?thesis
      by (subst collapse_spaces.simps) auto
  next
    case False
    then show ?thesis
      by (subst collapse_spaces.simps) simp
  qed
qed

lemma collapse_spaces_single: "\<not> has_double_space (collapse_spaces s)"
  by (induction s rule: collapse_spaces.induct) (simp add: collapse_spaces.simps)

lemma replace_double_space_ends:
  "s \<noteq> [] \<Longrightarrow> replace_double_space s \<noteq> [] \<and>
     hd (replace_double_space s) = hd s \<and> last (replace_double_space s) = last s"
proof (induction s rule: replace_double_space.induct)
  case (1 a b rest)
  show ?case
  proof (cases "a = CHR '' '' \<and> b = CHR '' ''")
    case True
    with 1 show ?thesis by (cases rest) auto
  next
    case False
    with 1 show ?thesis by auto
  qed
qed simp_all

lemma collapse_spaces_ends:
  "s \<noteq> [] \<Longrightarrow> collapse_spaces s \<noteq> [] \<and>
     hd (collapse_spaces s) = hd s \<and> last (collapse_spaces s) = last s"
proof (induction s rule: collapse_spaces.induct)
  case (1 name)
  show ?case
  proof (cases "has_double_space name")
    case True
    with "1.IH" "1.prems" replace_double_space_ends [of name] show ?thesis
      by (subst (1 2 3) collapse_spaces.simps) simp
  next
    case False
    with "1.prems" show ?thesis
      by (subst (1 2 3) collapse_spaces.simps) simp
  qed
qed

lemma set_strip_where: "set (strip_where P s) \<subseteq> set s"
proof
  fix x
  assume "x \<in> set (strip_where P s)"
  then have "x \<in> set (dropWhile P (rev (dropWhile P s)))"
    by (simp add: strip_where_def)
  then have "x \<in> set (rev (dropWhile P s))"
    by (rule set_dropWhileD)
  then have "x \<in> set (dropWhile P s)"
    by simp
  then show "x \<in> set s"
    by (rule set_dropWhileD)
qed

lemma strip_where_ends:
  "strip_where P s \<noteq> [] \<Longrightarrow> \<not> P (hd (strip_where P s)) \<and> \<not> P (last (strip_where P s))"
proof -
  define t where "t = dropWhile P s"
  define u where "u = dropWhile P (rev t)"
  assume "strip_where P s \<noteq> []"
  then have u: "u \<noteq> []"
    by (simp add: strip_where_def u_def t_def)
  then have hu: "\<not> P (hd u)"
    unfolding u_def by (rule hd_dropWhile)
  have "rev t \<noteq> []"
    using u unfolding u_def by auto
  then have t: "t \<noteq> []" by simp
  then have ht: "\<not> P (hd t)"
    unfolding t_def by (rule hd_dropWhile)
  have "\<exists>pre. rev t = pre @ u"
    unfolding u_def by (metis takeWhile_dropWhile_id)
  then obtain pre where "rev t = pre @ u" ..
  then have "t = rev u @ rev pre"
    by (metis rev_append rev_rev_ident)
  with u have "hd (rev u) = hd t"
    by simp
  with ht hu u show ?thesis
    by (simp add: strip_where_def u_def [symmetric] t_def [symmetric] last_rev hd_rev)
qed

lemma sanitize_name_safe:
  "sanitize_name raw \<noteq> [] \<and>
   (\<forall>c \<in> set (sanitize_name raw). c \<notin> set bad_chars) \<and>
   \<not> has_double_space (sanitize_name raw) \<and>
   hd (sanitize_name raw) \<noteq> CHR ''.'' \<and> last (sanitize_name raw) \<noteq> CHR ''.''"
proof (cases "raw = []")
  case True
  then show ?thesis
    by (simp add: sanitize_name_def bad_chars_def)
next
  case False
  define m where "m = map (\<lambda>c. if c \<in> set bad_chars then CHR ''-'' else c) raw"
  define s where "s = py_strip_chars ''.'' (py_strip m)"
  have dash: "CHR ''-'' \<notin> set bad_chars"
    by (simp add: bad_chars_def)
  have m: "\<forall>c \<in> set m. c \<notin> set bad_chars"
    using dash by (auto simp: m_def)
  have "set s \<subseteq> set m"
    unfolding s_def py_strip_chars_def py_strip_def
    using set_strip_where by (meson subset_trans)
  with m have sb: "\<forall>c \<in> set s. c \<notin> set bad_chars"
    by blast
  have sn: "sanitize_name raw = (if collapse_spaces s = [] then ''Untitled'' else collapse_spaces s)"
    using False by (simp add: sanitize_name_def Let_def m_def s_def)
  show ?thesis
  proof (cases "s = []")
    case True
    then have "collapse_spaces s = []"
      by (simp add: collapse_spaces.simps)
    with sn show ?thesis
      by (simp add: bad_chars_def)
  next
    case ne: False
    from collapse_spaces_ends [OF ne]
    have c: "collapse_spaces s \<noteq> []" "hd (collapse_spaces s) = hd s"
      "last (collapse_spaces s) = last s"
      by simp_all
    have "strip_where (\<lambda>c. c \<in> set ''.'') (py_strip m) \<noteq> []"
      using ne by (simp add: s_def py_strip_chars_def)
    from strip_where_ends [OF this]
    have "hd s \<noteq> CHR ''.''" "last s \<noteq> CHR ''.''"
      by (simp_all add: s_def py_strip_chars_def)
    with c sn sb set_collapse_spaces [of s] collapse_spaces_single [of s] show ?thesis
      by auto
  qed
qed


section \<open>The claims about the pagination iterator\<close>

text \<open>
  Claim C3. For every server, category and bound on the number of requests: the pages
  are requested in the order 0, 1, 2, ...; the items yielded are those elements of the
  requested pages' arrays, taken in page order, that are records and are the first
  with their integer id, so they come in page order and no two of them have the same
  integer id; the iteration stops at the first requested page whose array is empty or
  absent, with nothing yielded after it, so a server whose page k is empty is asked for
  at most k + 1 pages and the iteration ends within that many requests; and when page 2 is requested and its array is
  empty, exactly the items of pages 0 and 1 are yielded, in order, the first of each
  integer id only, and three pages have been requested. Page 2 is requested whenever
  pages 0 and 1 have arrays that are iterated, no total is known after them and the
  bound allows three requests.
\<close>

theorem iter_prayers_pages:
  "(let r = iter_prayers str_int net category_id fuel;
        pages = map (\<lambda>u. page_items (net u)) (requested r)
    in requested r = map (page_url category_id) [0..<length (requested r)] \<and>
       yielded r = first_by_id (concat pages) \<and>
       subseq (yielded r) (concat pages) \<and>
       distinct (List.map_filter item_id (yielded r)) \<and>
       (\<forall>k<length (requested r).
          empty_page (net (requested r ! k)) \<longrightarrow>
            Suc k = length (requested r) \<and> outcome r = Stopped) \<and>
       (\<forall>k<fuel. empty_page (net (page_url category_id k)) \<longrightarrow>
          length (requested r) \<le> Suc k \<and> outcome r \<noteq> OutOfFuel) \<and>
       (2 < length (requested r) \<and> empty_page (net (page_url category_id 2)) \<longrightarrow>
          yielded r = first_by_id (page_items (net (page_url category_id 0)) @
                                   page_items (net (page_url category_id 1))) \<and>
          requested r = [page_url category_id 0, page_url category_id 1, page_url category_id 2] \<and>
          outcome r = Stopped) \<and>
       (full_page (net (page_url category_id 0)) \<and> full_page (net (page_url category_id 1)) \<and>
        known_total net [page_url category_id 0, page_url category_id 1] = PNone \<and>
        known_total net [page_url category_id 0] = PNone \<and>
        empty_page (net (page_url category_id 2)) \<and> 3 \<le> fuel \<longrightarrow>
          yielded r = first_by_id (page_items (net (page_url category_id 0)) @
                                   page_items (net (page_url category_id 1))) \<and>
          requested r = [page_url category_id 0, page_url category_id 1, page_url category_id 2] \<and>
          outcome r = Stopped))"
proof -
  define r where "r = iter_prayers str_int net category_id fuel"
  define pages where "pages = map (\<lambda>u. page_items (net u)) (requested r)"
  have req: "requested r = map (page_url category_id) [0..<length (requested r)]"
  proof -
    have "page_url category_id = (\<lambda>k. BASE_API category_id @ py_str_nat k)"
      by (rule ext) (simp add: page_url_def)
    then show ?thesis
      using iter_loop_requested [of str_int net "BASE_API category_id" fuel 0 "{}" PNone]
      by (simp add: r_def iter_prayers_def)
  qed
  have yld: "yielded r = first_by_id (concat pages)"
    unfolding first_by_id_kept pages_def r_def iter_prayers_def
    by (rule iter_loop_yielded)
  have sub: "subseq (yielded r) (concat pages)"
    unfolding yld first_by_id_kept by (rule yield_page_subseq)
  have dis: "distinct (List.map_filter item_id (yielded r))"
    unfolding yld first_by_id_kept using yield_page_ids by blast
  have stop: "\<forall>k<length (requested r).
          empty_page (net (requested r ! k)) \<longrightarrow>
            Suc k = length (requested r) \<and> outcome r = Stopped"
    unfolding r_def iter_prayers_def using iter_loop_ends by blast
  have two: "yielded r = first_by_id (page_items (net (page_url category_id 0)) @
                                   page_items (net (page_url category_id 1))) \<and>
          requested r = [page_url category_id 0, page_url category_id 1, page_url category_id 2] \<and>
          outcome r = Stopped"
    if len: "2 < length (requested r)" and emp: "empty_page (net (page_url category_id 2))"
  proof -
    have at2: "requested r ! 2 = page_url category_id 2"
      using len by (subst req) (simp add: numeral_2_eq_2)
    with stop len emp have l3: "length (requested r) = 3" and out: "outcome r = Stopped"
      by auto
    have "[0..<3] = [0, 1, 2::nat]"
      by (simp add: upt_rec)
    with req l3 have rq: "requested r = [page_url category_id 0, page_url category_id 1, page_url category_id 2]"
      by simp
    have "concat pages = page_items (net (page_url category_id 0)) @
                         page_items (net (page_url category_id 1))"
      unfolding pages_def rq using empty_page_items [OF emp] by simp
    with yld rq out show ?thesis by simp
  qed
  have three: "yielded r = first_by_id (page_items (net (page_url category_id 0)) @
                                   page_items (net (page_url category_id 1))) \<and>
          requested r = [page_url category_id 0, page_url category_id 1, page_url category_id 2] \<and>
          outcome r = Stopped"
    if "full_page (net (page_url category_id 0))" "full_page (net (page_url category_id 1))"
      "known_total net [page_url category_id 0, page_url category_id 1] = PNone"
      "known_total net [page_url category_id 0] = PNone"
      "empty_page (net (page_url category_id 2))" "3 \<le> fuel"
  proof -
    from three_pages_then_empty [OF that(1,2,4,3,5,6), of str_int]
    have "2 < length (requested r)"
      by (simp add: r_def)
    then show ?thesis
      using that(5) by (rule two)
  qed
  have by_k: "\<forall>k<fuel. empty_page (net (page_url category_id k)) \<longrightarrow>
          length (requested r) \<le> Suc k \<and> outcome r \<noteq> OutOfFuel"
    unfolding r_def using iter_prayers_stops_by by blast
  show ?thesis
    unfolding Let_def r_def [symmetric] pages_def [symmetric]
    using req yld sub dis stop by_k two three by blast
qed

lemma ex_run: "iter_prayers (\<lambda>_. None) ex_net 12 5 =
     \<lparr>yielded = [ex_item 1, ex_item 2, ex_item 3],
      requested = [page_url 12 0, page_url 12 1, page_url 12 2], outcome = Stopped\<rparr>"
  by code_simp

theorem iter_prayers_pages_witness:
  "2 < length (requested (iter_prayers (\<lambda>_. None) ex_net 12 5)) \<and>
   empty_page (ex_net (page_url 12 2)) \<and>
   yielded (iter_prayers (\<lambda>_. None) ex_net 12 5) =
     first_by_id ([ex_item 1, ex_item 2] @ [ex_item 2, ex_item 3]) \<and>
   yielded (iter_prayers (\<lambda>_. None) ex_net 12 5) = [ex_item 1, ex_item 2, ex_item 3]"
proof -
  have p0: "page_items (ex_net (page_url 12 0)) = [ex_item 1, ex_item 2]"
    by code_simp
  have p1: "page_items (ex_net (page_url 12 1)) = [ex_item 2, ex_item 3]"
    by code_simp
  have e2: "empty_page (ex_net (page_url 12 2))"
    by code_simp
  have l: "2 < length (requested (iter_prayers (\<lambda>_. None) ex_net 12 5))"
    by (simp add: ex_run)
  from iter_prayers_pages [of "\<lambda>_. None" ex_net 12 5]
  have "2 < length (requested (iter_prayers (\<lambda>_. None) ex_net 12 5)) \<and>
        empty_page (ex_net (page_url 12 2)) \<longrightarrow>
        yielded (iter_prayers (\<lambda>_. None) ex_net 12 5) =
          first_by_id (page_items (ex_net (page_url 12 0)) @ page_items (ex_net (page_url 12 1)))"
    unfolding Let_def by blast
  with l e2 have "yielded (iter_prayers (\<lambda>_. None) ex_net 12 5) =
      first_by_id ([ex_item 1, ex_item 2] @ [ex_item 2, ex_item 3])"
    unfolding p0 p1 by blast
  with l e2 show ?thesis
    by (simp add: ex_run)
qed



lemma ex_run_total: "iter_prayers (\<lambda>_. None) ex_net_total 12 5 =
     \<lparr>yielded = [ex_item 1, ex_item 2, ex_item 3],
      requested = [page_url 12 0, page_url 12 1], outcome = Stopped\<rparr>"
  by code_simp



text \<open>
  Claim C7. A page whose fetch fails is the last page requested and the iteration
  ends normally, with no exception; a server whose page k fails is asked for at most
  k + 1 pages and the iteration ends within that many requests; the whole run is the
  run in which that page
  answers with no \<open>prayers\<close> array at all, that is, the failure is taken as the end of the
  data.
\<close>

theorem iter_prayers_fetch_failure:
  "(let r = iter_prayers str_int net category_id fuel
    in (\<forall>k<length (requested r).
          (\<exists>e. net (requested r ! k) = FetchRaised e) \<longrightarrow>
            Suc k = length (requested r) \<and> outcome r = Stopped) \<and>
       (\<forall>k<fuel. (\<exists>e. net (page_url category_id k) = FetchRaised e) \<longrightarrow>
          length (requested r) \<le> Suc k \<and> outcome r \<noteq> OutOfFuel) \<and>
       (\<forall>u e. net u = FetchRaised e \<longrightarrow>
          r = iter_prayers str_int (net(u := FetchData (PDict []))) category_id fuel))"
proof -
  have a: "\<forall>k<length (requested (iter_prayers str_int net category_id fuel)).
          (\<exists>e. net (requested (iter_prayers str_int net category_id fuel) ! k) = FetchRaised e) \<longrightarrow>
            Suc k = length (requested (iter_prayers str_int net category_id fuel)) \<and>
            outcome (iter_prayers str_int net category_id fuel) = Stopped"
    unfolding iter_prayers_def using iter_loop_ends by blast
  have b: "\<forall>k<fuel. (\<exists>e. net (page_url category_id k) = FetchRaised e) \<longrightarrow>
          length (requested (iter_prayers str_int net category_id fuel)) \<le> Suc k \<and>
          outcome (iter_prayers str_int net category_id fuel) \<noteq> OutOfFuel"
    using iter_prayers_stops_by by blast
  have c: "\<forall>u e. net u = FetchRaised e \<longrightarrow>
          iter_prayers str_int net category_id fuel =
          iter_prayers str_int (net(u := FetchData (PDict []))) category_id fuel"
    unfolding iter_prayers_def using iter_loop_failure_as_end by blast
  show ?thesis
    unfolding Let_def using a b c by blast
qed

lemma ex_run_down: "iter_prayers (\<lambda>_. None) ex_net_down 12 5 =
     \<lparr>yielded = [ex_item 1, ex_item 2],
      requested = [page_url 12 0, page_url 12 1], outcome = Stopped\<rparr>"
  by code_simp

theorem iter_prayers_fetch_failure_witness:
  "ex_net_down (page_url 12 1) = FetchRaised FetchError \<and>
   requested (iter_prayers (\<lambda>_. None) ex_net_down 12 5) ! 1 = page_url 12 1 \<and>
   length (requested (iter_prayers (\<lambda>_. None) ex_net_down 12 5)) = 2 \<and>
   outcome (iter_prayers (\<lambda>_. None) ex_net_down 12 5) = Stopped \<and>
   iter_prayers (\<lambda>_. None) ex_net_down 12 5 =
     iter_prayers (\<lambda>_. None) (ex_net_down(page_url 12 1 := FetchData (PDict []))) 12 5"
proof -
  have f: "ex_net_down (page_url 12 1) = FetchRaised FetchError"
    by code_simp
  have at: "requested (iter_prayers (\<lambda>_. None) ex_net_down 12 5) ! 1 = page_url 12 1"
    and len: "1 < length (requested (iter_prayers (\<lambda>_. None) ex_net_down 12 5))"
    by (simp_all add: ex_run_down)
  note t = iter_prayers_fetch_failure [of "\<lambda>_. None" ex_net_down 12 5, unfolded Let_def]
  from t len f at
  have "Suc 1 = length (requested (iter_prayers (\<lambda>_. None) ex_net_down 12 5)) \<and>
        outcome (iter_prayers (\<lambda>_. None) ex_net_down 12 5) = Stopped"
    by metis
  moreover from t f
  have "iter_prayers (\<lambda>_. None) ex_net_down 12 5 =
     iter_prayers (\<lambda>_. None) (ex_net_down(page_url 12 1 := FetchData (PDict []))) 12 5"
    by blast
  ultimately show ?thesis
    using f at by simp
qed


section \<open>The claims about the streaming download\<close>




text \<open>
  Claim C8. If a regular file with at least one byte exists at the destination,
  \<open>stream_download\<close> returns at once: the file system is the one before, that file
  included, no URL is requested and nothing is raised.
\<close>

theorem stream_download_existing:
  "map_of fs dest = Some (File b) \<Longrightarrow> b \<noteq> [] \<Longrightarrow>
   stream_download use_requests dir_size net fs url dest =
     \<lparr>fs_after = fs, fetched = [], raised = None\<rparr>"
  by (simp add: stream_download_def path_exists_def getsize_def)

theorem stream_download_existing_witness:
  "map_of [(''documents/01 - test.pdf'', File ''%PDF-1.4'')] ''documents/01 - test.pdf''
     = Some (File ''%PDF-1.4'') \<and> ''%PDF-1.4'' \<noteq> [] \<and>
   stream_download True 0 ex_html [(''documents/01 - test.pdf'', File ''%PDF-1.4'')]
       ''http://x/test.pdf'' ''documents/01 - test.pdf'' =
     \<lparr>fs_after = [(''documents/01 - test.pdf'', File ''%PDF-1.4'')], fetched = [], raised = None\<rparr>"
proof -
  have h: "map_of [(''documents/01 - test.pdf'', File ''%PDF-1.4'')] ''documents/01 - test.pdf''
     = Some (File ''%PDF-1.4'')"
    by simp
  have n: "''%PDF-1.4'' \<noteq> []"
    by simp
  from stream_download_existing [OF h n, of True 0 ex_html "''http://x/test.pdf''"] h n
  show ?thesis by blast
qed


section \<open>The claim about unique file names\<close>

text \<open>
  Claim C10. For every directory and base name, \<open>unique_filename\<close> returns a name that
  does not exist in the directory: the base name if that is free, and otherwise the
  first free name among root \<open>(N)\<close> ext for N = 1, 2, ..., where root and ext are the
  base name split at its extension. In a directory where the base name and its first
  two candidates are free, the first call returns the base name; once that file has
  been created the second call returns the name with \<open>(1)\<close> before the extension; once
  that file has been created too, the third call returns the name with \<open>(2)\<close>. The
  names built for assets with different ordinals are different.
\<close>

theorem unique_filename_first_free:
  "(let name = unique_filename fs directory base_name;
        root = fst (splitext base_name);
        ext = snd (splitext base_name)
    in \<not> path_exists fs (path_join directory name) \<and>
       (if \<not> path_exists fs (path_join directory base_name) then name = base_name
        else \<exists>n\<ge>1. name = candidate_name root ext n \<and>
               (\<forall>k. 1 \<le> k \<and> k < n \<longrightarrow>
                  path_exists fs (path_join directory (candidate_name root ext k)))) \<and>
       candidate_name root ext 1 = root @ '' (1)'' @ ext \<and>
       candidate_name root ext 2 = root @ '' (2)'' @ ext \<and>
       (\<forall>b1 b2.
          \<not> path_exists fs (path_join directory base_name) \<and>
          \<not> path_exists fs (path_join directory (root @ '' (1)'' @ ext)) \<and>
          \<not> path_exists fs (path_join directory (root @ '' (2)'' @ ext))
          \<longrightarrow>
          (let fs1 = AList.update (path_join directory base_name) (File b1) fs;
               fs2 = AList.update (path_join directory (root @ '' (1)'' @ ext)) (File b2) fs1
           in unique_filename fs directory base_name = base_name \<and>
              unique_filename fs1 directory base_name = root @ '' (1)'' @ ext \<and>
              unique_filename fs2 directory base_name = root @ '' (2)'' @ ext))) \<and>
   (\<forall>i j f g. track_name i f = track_name j g \<or> document_name i f = document_name j g
        \<longrightarrow> i = j)"
proof -
  define root where "root = fst (splitext base_name)"
  define ext where "ext = snd (splitext base_name)"
  have base: "base_name = root @ ext"
    by (simp add: root_def ext_def splitext_append)
  have uf: "unique_filename f directory base_name = unique_loop f directory root ext base_name 1"
    for f
    by (simp add: unique_filename_def root_def ext_def split_def Let_def)
  note c12 = candidate_one_two [of root ext]
  have free: "\<not> path_exists fs (path_join directory (unique_filename fs directory base_name))"
    unfolding uf using unique_loop_spec [of fs directory root ext base_name 1] by blast
  have first: "if \<not> path_exists fs (path_join directory base_name)
        then unique_filename fs directory base_name = base_name
        else \<exists>n\<ge>1. unique_filename fs directory base_name = candidate_name root ext n \<and>
               (\<forall>k. 1 \<le> k \<and> k < n \<longrightarrow>
                  path_exists fs (path_join directory (candidate_name root ext k)))"
    unfolding uf using unique_loop_spec [of fs directory root ext base_name 1]
    by (simp del: One_nat_def)
  have scen: "unique_filename fs directory base_name = base_name \<and>
              unique_filename (AList.update (path_join directory base_name) (File b1) fs)
                 directory base_name = root @ '' (1)'' @ ext \<and>
              unique_filename (AList.update (path_join directory (root @ '' (1)'' @ ext)) (File b2)
                 (AList.update (path_join directory base_name) (File b1) fs))
                 directory base_name = root @ '' (2)'' @ ext"
    if n0: "\<not> path_exists fs (path_join directory base_name)"
      and n1: "\<not> path_exists fs (path_join directory (root @ '' (1)'' @ ext))"
      and n2: "\<not> path_exists fs (path_join directory (root @ '' (2)'' @ ext))"
    for b1 b2
  proof -
    let ?pb = "path_join directory base_name"
    let ?p1 = "path_join directory (candidate_name root ext 1)"
    let ?p2 = "path_join directory (candidate_name root ext 2)"
    let ?fs1 = "AList.update ?pb (File b1) fs"
    let ?fs2 = "AList.update ?p1 (File b2) ?fs1"
    have d1: "?p1 \<noteq> ?pb" and d2: "?p2 \<noteq> ?pb"
      unfolding base by (rule candidate_path_not_base)+
    have d12: "?p2 \<noteq> ?p1"
      using candidate_path_inject [of directory root ext 2 1] by auto
    have a: "unique_filename fs directory base_name = base_name"
      using first n0 by simp
    have b: "unique_filename ?fs1 directory base_name = candidate_name root ext 1"
      unfolding uf
      using n1 d1 unfolding c12 [symmetric]
      by (simp add: unique_loop_free unique_loop_taken path_exists_update)
    have c: "unique_filename ?fs2 directory base_name = candidate_name root ext 2"
      unfolding uf
      using n2 d1 d2 d12 unfolding c12 [symmetric]
      by (simp add: unique_loop_free unique_loop_taken path_exists_update numeral_2_eq_2)
    from a b c show ?thesis
      unfolding c12 by simp
  qed
  have pre: "\<forall>i j f g. track_name i f = track_name j g \<or> document_name i f = document_name j g
        \<longrightarrow> i = j"
    using track_name_index document_name_index by blast
  show ?thesis
    unfolding Let_def root_def [symmetric] ext_def [symmetric]
  proof (intro conjI)
    show "\<forall>i j f g. track_name i f = track_name j g \<or> document_name i f = document_name j g
        \<longrightarrow> i = j"
      by (rule pre)
  next
    show "\<not> path_exists fs (path_join directory (unique_filename fs directory base_name))"
      by (rule free)
    show "if \<not> path_exists fs (path_join directory base_name)
        then unique_filename fs directory base_name = base_name
        else \<exists>n\<ge>1. unique_filename fs directory base_name = candidate_name root ext n \<and>
               (\<forall>k. 1 \<le> k \<and> k < n \<longrightarrow>
                  path_exists fs (path_join directory (candidate_name root ext k)))"
      by (rule first)
    show "candidate_name root ext 1 = root @ '' (1)'' @ ext"
      by (rule c12)
    show "candidate_name root ext 2 = root @ '' (2)'' @ ext"
      by (rule c12)
    show "\<forall>b1 b2.
          \<not> path_exists fs (path_join directory base_name) \<and>
          \<not> path_exists fs (path_join directory (root @ '' (1)'' @ ext)) \<and>
          \<not> path_exists fs (path_join directory (root @ '' (2)'' @ ext))
          \<longrightarrow>
             unique_filename fs directory base_name = base_name \<and>
             unique_filename (AList.update (path_join directory base_name) (File b1) fs)
                 directory base_name = root @ '' (1)'' @ ext \<and>
             unique_filename (AList.update (path_join directory (root @ '' (1)'' @ ext)) (File b2)
                 (AList.update (path_join directory base_name) (File b1) fs))
                 directory base_name = root @ '' (2)'' @ ext"
      using scen by blast
  qed
qed


theorem unique_filename_first_free_witness:
  "\<not> path_exists [(''audio'', Dir)] (path_join ''audio'' ''01 - a.mp3'') \<and>
   \<not> path_exists [(''audio'', Dir)] (path_join ''audio'' (''01 - a'' @ '' (1)'' @ ''.mp3'')) \<and>
   \<not> path_exists [(''audio'', Dir)] (path_join ''audio'' (''01 - a'' @ '' (2)'' @ ''.mp3'')) \<and>
   unique_filename [(''audio'', Dir)] ''audio'' ''01 - a.mp3'' = ''01 - a.mp3'' \<and>
   unique_filename (AList.update (path_join ''audio'' ''01 - a.mp3'') (File ''x'')
       [(''audio'', Dir)]) ''audio'' ''01 - a.mp3'' = ''01 - a (1).mp3'' \<and>
   unique_filename (AList.update (path_join ''audio'' (''01 - a'' @ '' (1)'' @ ''.mp3'')) (File ''y'')
       (AList.update (path_join ''audio'' ''01 - a.mp3'') (File ''x'') [(''audio'', Dir)]))
     ''audio'' ''01 - a.mp3'' = ''01 - a (2).mp3''"
proof -
  have r: "fst (splitext ''01 - a.mp3'') = ''01 - a''" and e: "snd (splitext ''01 - a.mp3'') = ''.mp3''"
    by code_simp+
  have n0: "\<not> path_exists [(''audio'', Dir)] (path_join ''audio'' ''01 - a.mp3'')"
    and n1: "\<not> path_exists [(''audio'', Dir)] (path_join ''audio'' (''01 - a'' @ '' (1)'' @ ''.mp3''))"
    and n2: "\<not> path_exists [(''audio'', Dir)] (path_join ''audio'' (''01 - a'' @ '' (2)'' @ ''.mp3''))"
    by code_simp+
  from unique_filename_first_free [of "[(''audio'', Dir)]" "''audio''" "''01 - a.mp3''"]
  have "\<forall>b1 b2.
          \<not> path_exists [(''audio'', Dir)] (path_join ''audio'' ''01 - a.mp3'') \<and>
          \<not> path_exists [(''audio'', Dir)] (path_join ''audio'' (''01 - a'' @ '' (1)'' @ ''.mp3'')) \<and>
          \<not> path_exists [(''audio'', Dir)] (path_join ''audio'' (''01 - a'' @ '' (2)'' @ ''.mp3''))
          \<longrightarrow>
          unique_filename [(''audio'', Dir)] ''audio'' ''01 - a.mp3'' = ''01 - a.mp3'' \<and>
          unique_filename (AList.update (path_join ''audio'' ''01 - a.mp3'') (File b1)
              [(''audio'', Dir)]) ''audio'' ''01 - a.mp3'' = ''01 - a'' @ '' (1)'' @ ''.mp3'' \<and>
          unique_filename (AList.update (path_join ''audio'' (''01 - a'' @ '' (1)'' @ ''.mp3'')) (File b2)
              (AList.update (path_join ''audio'' ''01 - a.mp3'') (File b1) [(''audio'', Dir)]))
            ''audio'' ''01 - a.mp3'' = ''01 - a'' @ '' (2)'' @ ''.mp3''"
    unfolding Let_def r e by blast
  from this [rule_format, of "''x''" "''y''"] n0 n1 n2 show ?thesis
    by simp
qed

section \<open>The claim about the sanitizer\<close>

text \<open>
  Claim C2 holds of the code at every input but for the white space at the ends
  (\<open>sanitize_name_safe\<close> has the rest). White space is stripped once, before the
  dots, so white space next to a dot at either end stays: for \<open>a .\<close> the result is
  \<open>a\<close> followed by a space.
\<close>

theorem sanitize_name_trailing_space:
  "sanitize_name ''a .'' = ''a '' \<and> py_isspace (last (sanitize_name ''a .''))"
  by code_simp


section \<open>The claims about the text extraction\<close>

text \<open>
  Claim C5 fails on the code. For a file that exists and that the PDF library would
  read as one page with the text \<open>Hello\<close>, \<open>read_pdf_file\<close> returns the empty string and
  prints that the file is corrupted: the name \<open>PdfReader\<close> is not bound.
\<close>

theorem read_pdf_file_valid_pdf:
  "open_read ex_docs ''documents/01 - test.pdf'' = Inr ''%PDF-1.4 Hello'' \<and>
   ex_pypdf ''%PDF-1.4 Hello'' = Inr [Some ''Hello''] \<and>
   read_pdf_file ex_pypdf ex_docs ''documents/01 - test.pdf'' =
     ([], [Corrupted ''documents/01 - test.pdf''])"
  by code_simp

text \<open>
  Claim C6. The names \<open>PdfReader\<close> and \<open>Path\<close> are unbound in the module. Whatever the
  file system, the path and the PDF library, \<open>read_pdf_file\<close> returns the empty string
  and prints that the file is corrupted. So the \<open>try\<close> block for a document never
  calls \<open>pdf_to_txt\<close>, and the file system after it is the one \<open>stream_download\<close> left:
  no text file is written next to the document.
\<close>

theorem no_text_sidecar:
  "lookup_name ''PdfReader'' = Inl (NameError ''PdfReader'') \<and>
   lookup_name ''Path'' = Inl (NameError ''Path'') \<and>
   fst (read_pdf_file pypdf fs p) = [] \<and>
   snd (read_pdf_file pypdf fs p) = [Corrupted p] \<and>
   ''pdf_to_txt'' \<notin> set (doc_calls (download_document use_requests dir_size net pypdf fs url dest docs_dir)) \<and>
   doc_fs (download_document use_requests dir_size net pypdf fs url dest docs_dir) =
     fs_after (stream_download use_requests dir_size net fs url dest)"
  by (simp add: lookup_PdfReader lookup_Path read_pdf_file_empty download_document_def Let_def
        split: option.splits)

theorem no_text_sidecar_witness:
  "raised (stream_download True 0 ex_pdf_server [] ''http://x/test.pdf'' ''documents/01 - test.pdf'') = None \<and>
   doc_fs (download_document True 0 ex_pdf_server ex_pypdf [] ''http://x/test.pdf''
             ''documents/01 - test.pdf'' ''documents'') = ex_docs \<and>
   ''pdf_to_txt'' \<notin> set (doc_calls (download_document True 0 ex_pdf_server ex_pypdf []
             ''http://x/test.pdf'' ''documents/01 - test.pdf'' ''documents'')) \<and>
   map_of (doc_fs (download_document True 0 ex_pdf_server ex_pypdf [] ''http://x/test.pdf''
             ''documents/01 - test.pdf'' ''documents'')) ''documents/01 - test.txt'' = None"
proof -
  have s: "stream_download True 0 ex_pdf_server [] ''http://x/test.pdf'' ''documents/01 - test.pdf''
           = \<lparr>fs_after = ex_docs, fetched = [''http://x/test.pdf''], raised = None\<rparr>"
    by code_simp
  have n: "map_of ex_docs ''documents/01 - test.txt'' = None"
    by code_simp
  from no_text_sidecar [of ex_pypdf "[]" "''documents/01 - test.pdf''" True 0 ex_pdf_server
      "''http://x/test.pdf''" "''documents/01 - test.pdf''" "''documents''"]
  show ?thesis
    unfolding s using n by simp
qed


section \<open>The claim about the driver\<close>


lemma ex_main_run:
  "main ex_json_loads ex_literal_eval ex_str_int ex_scrape ''proj'' ex_project =
     \<lparr>exit_status = 0,
      stdout = [Category_header (PInt 12) (PStr ''Morning Prayers''),
                Category_header (PInt 13) (PStr ''Evening Prayers''), Downloaded 3,
                Category_header (PStr ''x'') (PStr ''Other''), All_done 3],
      stderr = [Category_failed (PInt 12) FetchError, Category_failed (PStr ''x'') ValueError],
      final_fs = ex_project @ [(''proj/downloads'', Dir),
                               (''proj/downloads/12 - Morning Prayers'', Dir)]\<rparr>"
  by code_simp



end
